theory Spec2Isabelle
  imports Main "HOL-Library.Word" "HOL-Library.Char_ord" "HOL-Library.List_Lexorder"
    "HOL-Library.Product_Lexorder"
begin

unbundle bit_operations_syntax

section \<open>Basic types\<close>

text \<open>
  Go's fixed-width integers are words: \<open>uint32\<close> block indices wrap around, as do the
  \<open>int64\<close> gas prices. \<open>util.Uint256\<close> and \<open>util.Uint160\<close> are hashes, \<open>callflag.CallFlag\<close>
  is a byte-sized bitset. Offsets into a script are Go \<open>int\<close>s.
\<close>

type_synonym uint32 = "32 word"
type_synonym int64 = "64 word"
type_synonym byte = "8 word"
type_synonym Uint256 = "256 word"
type_synonym Uint160 = "160 word"
type_synonym CallFlag = "8 word"

text \<open>
  Errors are values. The first three are the failures of syscall dispatch,
  \<open>ErrKeyNotFound\<close> is \<open>storage.ErrKeyNotFound\<close>, \<open>Failure\<close> is any other error value
  (of a handler or of the ledger), and \<open>NilDereference\<close> is Go's run-time panic on reading
  through a nil pointer.
\<close>

datatype error =
    SyscallNotFound
  | MissingCallFlags CallFlag CallFlag
  | InsufficientGas
  | ErrKeyNotFound
  | Failure string
  | NilDereference

section \<open>The ledger and the invocation context\<close>

text \<open>
  \<open>block.Block\<close>: only the index is read by the context. \<open>Ledger\<close> is the Go interface of the
  same name, a record of its methods (\<open>GetConfig\<close> is used by \<open>NewContext\<close> only).
\<close>

record Block =
  Index :: uint32

record Ledger =
  BlockHeight :: uint32
  CurrentBlockHash :: Uint256
  GetBlock :: "Uint256 \<Rightarrow> error + Block"
  GetHeaderHash :: "uint32 \<Rightarrow> Uint256"

text \<open>
  \<open>Function\<close> is a syscall descriptor. A Go func value is a code pointer: \<open>Func\<close> holds the
  identity of the handler, and the behaviour of the handlers on a context is given
  separately (the \<open>run\<close> argument of \<open>SyscallHandler\<close>), since a handler takes the very
  context that holds the function table.
\<close>

record Function =
  ID :: uint32
  Name :: string
  Func :: nat
  ParamCount :: int
  Price :: int64
  RequiredFlags :: CallFlag

text \<open>
  \<open>Context\<close>: the fields that the modelled methods read or write. \<open>Block\<close> is a pointer
  and may be nil (\<open>None\<close>). \<open>Hardforks\<close> is the map from hardfork name to activation
  height. The virtual machine is outside the modelled files: its state is the type
  parameter \<open>'vm\<close>.
\<close>

record 'vm Context =
  Chain :: Ledger
  Hardforks :: "string \<rightharpoonup> uint32"
  Block :: "Block option"
  VM :: 'vm
  Functions :: "Function list"
  baseExecFee :: int64

subsection \<open>Ledger view\<close>

text \<open>
  \<open>func (ic *Context) BlockHeight() uint32\<close>: with a block attached the result is
  \<open>ic.Block.Index - 1\<close> in \<open>uint32\<close> arithmetic.
\<close>

definition BlockHeight :: "'vm Context \<Rightarrow> uint32" where
  "BlockHeight ic =
     (case Block ic of
        Some b \<Rightarrow> Index b - 1
      | None \<Rightarrow> Ledger.BlockHeight (Chain ic))"

definition CurrentBlockHash :: "'vm Context \<Rightarrow> Uint256" where
  "CurrentBlockHash ic =
     (case Block ic of
        Some b \<Rightarrow> Ledger.GetHeaderHash (Chain ic) (Index b - 1)
      | None \<Rightarrow> Ledger.CurrentBlockHash (Chain ic))"

definition GetBlock :: "'vm Context \<Rightarrow> Uint256 \<Rightarrow> error + Block" where
  "GetBlock ic hash =
     (case Ledger.GetBlock (Chain ic) hash of
        Inl err \<Rightarrow> Inl err
      | Inr block \<Rightarrow>
          if Index block > BlockHeight ic then Inl ErrKeyNotFound else Inr block)"

text \<open>
  Modelled from the spec: the type \<open>config.Hardfork\<close> and its methods are not in the
  modelled files. A hardfork is a number, older hardforks being smaller. The hardfork
  tests look the hardfork up by its name, \<open>hf.String()\<close>: the naming function is the
  argument \<open>str\<close>.
\<close>

type_synonym Hardfork = nat

definition IsHardforkEnabled :: "(Hardfork \<Rightarrow> string) \<Rightarrow> 'vm Context \<Rightarrow> Hardfork \<Rightarrow> bool" where
  "IsHardforkEnabled str ic hf =
     (case Hardforks ic (str hf) of
        Some height \<Rightarrow> BlockHeight ic + 1 \<ge> height
      | None \<Rightarrow> False)"

text \<open>
  \<open>return ok && ic.Block.Index == height\<close>: \<open>&&\<close> evaluates its right operand only when
  \<open>ok\<close> holds, and the right operand reads through \<open>ic.Block\<close>.
\<close>

definition IsHardforkActivation :: "(Hardfork \<Rightarrow> string) \<Rightarrow> 'vm Context \<Rightarrow> Hardfork \<Rightarrow> error + bool" where
  "IsHardforkActivation str ic hf =
     (case Hardforks ic (str hf) of
        None \<Rightarrow> Inr False
      | Some height \<Rightarrow>
          (case Block ic of
             None \<Rightarrow> Inl NilDereference
           | Some b \<Rightarrow> Inr (Index b = height)))"

text \<open>Example contexts: a ledger that stores a block of index \<open>n\<close> under the hash \<open>n\<close>.\<close>

definition numbered_ledger :: "uint32 \<Rightarrow> Ledger" where
  "numbered_ledger height =
     \<lparr> Ledger.BlockHeight = height, Ledger.CurrentBlockHash = ucast height,
       Ledger.GetBlock = (\<lambda>h. if h < 1000 then Inr \<lparr> Index = ucast h \<rparr> else Inl (Failure ''no block'')),
       Ledger.GetHeaderHash = ucast \<rparr>"

definition persisting_ctx :: "uint32 \<Rightarrow> uint32 \<Rightarrow> unit Context" where
  "persisting_ctx height k =
     \<lparr> Chain = numbered_ledger height, Hardforks = [''Aspidochelone'' \<mapsto> 100],
       Block = Some \<lparr> Index = k \<rparr>, VM = (), Functions = [], baseExecFee = 30 \<rparr>"

definition stored_ctx :: "uint32 \<Rightarrow> unit Context" where
  "stored_ctx height =
     \<lparr> Chain = numbered_ledger height, Hardforks = [''Aspidochelone'' \<mapsto> 100],
       Block = None, VM = (), Functions = [], baseExecFee = 30 \<rparr>"

section \<open>Binary search\<close>

text \<open>
  \<open>sort.Search(n, f)\<close> of the Go standard library: the loop keeps \<open>i \<le> j\<close>, probes the
  middle \<open>h\<close> and continues to the right of \<open>h\<close> when \<open>f(h)\<close> is false, to the left
  otherwise. The predicate is a closure that may panic (it reads through pointers), so
  it returns an error or a truth value, and a panic in the predicate ends the search.
\<close>

function Search_loop :: "(nat \<Rightarrow> error + bool) \<Rightarrow> nat \<Rightarrow> nat \<Rightarrow> error + nat" where
  "Search_loop f i j =
     (if i < j then
        (case f ((i + j) div 2) of
           Inl e \<Rightarrow> Inl e
         | Inr b \<Rightarrow>
             if \<not> b then Search_loop f ((i + j) div 2 + 1) j
             else Search_loop f i ((i + j) div 2))
      else Inr i)"
  by pat_completeness auto
termination
  by (relation "measure (\<lambda>(f, i, j). j - i)") auto

definition Search :: "nat \<Rightarrow> (nat \<Rightarrow> error + bool) \<Rightarrow> error + nat" where
  "Search n f = Search_loop f 0 n"

section \<open>Syscall dispatch\<close>

text \<open>
  Modelled from the spec: \<open>callflag.CallFlag.Has\<close> is not in the modelled files. The
  spec's dispatch fails when \<open>(call_flags & f.required_flags) != f.required_flags\<close>, so
  \<open>Has\<close> holds when every required bit is set.
\<close>

definition Has :: "CallFlag \<Rightarrow> CallFlag \<Rightarrow> bool" where
  "Has f cf = (f AND cf = cf)"

text \<open>
  \<open>GetFunction\<close>: binary search for the first function whose id is at least the syscall id \<open>sid\<close>. The
  comparison of ids cannot fail, so the search's error branch is never taken.
\<close>

definition GetFunction :: "'vm Context \<Rightarrow> uint32 \<Rightarrow> Function option" where
  "GetFunction ic sid =
     (case Search (length (Functions ic)) (\<lambda>i. Inr (Function.ID (Functions ic ! i) \<ge> sid)) of
        Inl e \<Rightarrow> None
      | Inr n \<Rightarrow>
          if n < length (Functions ic) \<and> Function.ID (Functions ic ! n) = sid
          then Some (Functions ic ! n) else None)"

text \<open>
  \<open>SyscallHandler\<close> returns Go's \<open>error\<close> (\<open>None\<close> is nil) and the context as it leaves
  it. The virtual machine is not in the modelled files; its two methods that dispatch
  calls are arguments: \<open>GetCallFlags\<close> reads the flags of the current frame
  (\<open>ic.VM.Context().GetCallFlags()\<close>), \<open>AddGas\<close> charges gas and tells whether the budget
  allows it. \<open>run\<close> gives the behaviour of each handler. The price is multiplied in
  \<open>int64\<close> arithmetic.
\<close>

definition SyscallHandler ::
  "(nat \<Rightarrow> 'vm Context \<Rightarrow> error option \<times> 'vm Context) \<Rightarrow> ('vm \<Rightarrow> CallFlag) \<Rightarrow>
   (int64 \<Rightarrow> 'vm \<Rightarrow> bool \<times> 'vm) \<Rightarrow> 'vm Context \<Rightarrow> uint32 \<Rightarrow> error option \<times> 'vm Context" where
  "SyscallHandler run GetCallFlags AddGas ic sid =
     (case GetFunction ic sid of
        None \<Rightarrow> (Some SyscallNotFound, ic)
      | Some f \<Rightarrow>
          (let cf = GetCallFlags (VM ic) in
           if \<not> Has cf (Function.RequiredFlags f)
           then (Some (MissingCallFlags cf (Function.RequiredFlags f)), ic)
           else
             (case AddGas (Price f * baseExecFee ic) (VM ic) of
                (ok, vm') \<Rightarrow>
                  if \<not> ok then (Some InsufficientGas, ic\<lparr> VM := vm' \<rparr>)
                  else run (Function.Func f) (ic\<lparr> VM := vm' \<rparr>))))"

text \<open>
  An example machine for the dispatch scenario of the spec: the flags of the current
  frame, the gas consumed and the gas limit. Its \<open>AddGas\<close> adds to the consumed gas and
  compares with the limit (a negative limit is no limit). The example handler 7
  succeeds and clears the frame's flags, so that its run is visible in the result.
\<close>

record example_vm =
  callFlags :: CallFlag
  gasConsumed :: int
  GasLimit :: int

definition example_AddGas :: "int64 \<Rightarrow> example_vm \<Rightarrow> bool \<times> example_vm" where
  "example_AddGas gas v =
     (GasLimit v < 0 \<or> gasConsumed v + sint gas \<le> GasLimit v,
      v\<lparr> gasConsumed := gasConsumed v + sint gas \<rparr>)"

definition example_run :: "nat \<Rightarrow> example_vm Context \<Rightarrow> error option \<times> example_vm Context" where
  "example_run h ic =
     (if h = 7 then (None, ic\<lparr> VM := (VM ic)\<lparr> callFlags := 0 \<rparr> \<rparr>)
      else (Some (Failure ''handler failed''), ic))"

definition dispatch_ctx :: "CallFlag \<Rightarrow> int \<Rightarrow> example_vm Context" where
  "dispatch_ctx flags limit =
     \<lparr> Chain = numbered_ledger 0, Hardforks = Map.empty, Block = None,
       VM = \<lparr> callFlags = flags, gasConsumed = 0, GasLimit = limit \<rparr>,
       Functions = [\<lparr> Function.ID = 42, Function.Name = ''Test.Syscall'', Function.Func = 7, ParamCount = 0,
                      Price = 100, Function.RequiredFlags = 2 \<rparr>],
       baseExecFee = 30 \<rparr>"

section \<open>Native contract descriptors\<close>

subsection \<open>Manifest and NEF types\<close>

text \<open>
  Modelled from the spec: the packages \<open>manifest\<close>, \<open>nef\<close> and \<open>state\<close> are not in the
  modelled files. Their types are records with the fields that the descriptor code
  reads or writes:
  a method descriptor has a name, an offset, a parameter list, a return type and the
  safe flag; an event has a name and a parameter list. Of the NEF file the compiler
  string and the script are kept (the magic number, the token list and the checksum
  come from functions outside the modelled files, and no modelled function reads
  them). Of the manifest the name and the ABI are kept.
\<close>

record manifest_Parameter =
  Name :: string
  Type :: nat

record manifest_Method =
  Name :: string
  Offset :: int
  Parameters :: "manifest_Parameter list"
  ReturnType :: nat
  Safe :: bool

record manifest_Event =
  Name :: string
  Parameters :: "manifest_Parameter list"

record manifest_ABI =
  Methods :: "manifest_Method list"
  Events :: "manifest_Event list"

record manifest_Manifest =
  Name :: string
  ABI :: manifest_ABI

record nef_File =
  Compiler :: string
  Script :: "byte list"

record state_ContractBase =
  ID :: "32 word"
  Hash :: Uint160
  NEF :: nef_File
  Manifest :: manifest_Manifest

text \<open>
  Modelled from the spec: \<open>manifest.DefaultManifest\<close> is not in the modelled files. The
  manifest is built from the filtered ABI lists with defaults applied; the default
  manifest has the given name and an empty ABI.
\<close>

definition DefaultManifest :: "string \<Rightarrow> manifest_Manifest" where
  "DefaultManifest name =
     \<lparr> manifest_Manifest.Name = name,
       ABI = \<lparr> manifest_ABI.Methods = [], manifest_ABI.Events = [] \<rparr> \<rparr>"

subsection \<open>The store of method descriptors\<close>

text \<open>
  A method declaration holds a pointer to its \<open>manifest.Method\<close>, and the code writes
  through such pointers. The descriptors live in a store: an address is an index into
  the list of allocated descriptors, a pointer is an address or nil. Reading through nil
  panics (so does, in the model, reading an address that is not allocated, which Go
  cannot produce). Taking the address of a fresh local allocates a new cell at the end.
\<close>

type_synonym heap = "manifest_Method list"
type_synonym pointer = "nat option"

definition load :: "heap \<Rightarrow> pointer \<Rightarrow> error + manifest_Method" where
  "load h p =
     (case p of
        None \<Rightarrow> Inl NilDereference
      | Some a \<Rightarrow> if a < length h then Inr (h ! a) else Inl NilDereference)"

definition new :: "heap \<Rightarrow> manifest_Method \<Rightarrow> nat \<times> heap" where
  "new h v = (length h, h @ [v])"

subsection \<open>Declarations\<close>

text \<open>
  \<open>Func\<close> is a code pointer, as in \<open>Function\<close>. \<open>MethodAndPrice\<close> and \<open>Event\<close> embed their
  hardfork-specific parts; the embedded field bears the name of its type, as in Go.
  No event descriptor is ever written, so an event's \<open>MD\<close> pointer is modelled by the
  value it points to (nil is \<open>None\<close>).
\<close>

record HFSpecificMethodAndPrice =
  Func :: nat
  MD :: pointer
  CPUFee :: int64
  StorageFee :: int64
  SyscallOffset :: int
  RequiredFlags :: CallFlag

record MethodAndPrice =
  HFSpecificMethodAndPrice :: HFSpecificMethodAndPrice
  ActiveFrom :: "Hardfork option"

record HFSpecificEvent =
  MD :: "manifest_Event option"

record Event =
  HFSpecificEvent :: HFSpecificEvent
  ActiveFrom :: "Hardfork option"

record HFSpecificContractMD =
  ContractBase :: state_ContractBase
  Methods :: "HFSpecificMethodAndPrice list"
  Events :: "HFSpecificEvent list"

text \<open>
  \<open>ContractMD\<close>: \<open>ActiveHFs\<close> is a Go map to the empty struct, a set. The cache maps a
  hardfork key to a built descriptor; its lock is not modelled (the functions are
  modelled as run by one thread). The manifest callback is a function on the manifest.
\<close>

record ContractMD =
  ID :: "32 word"
  Hash :: Uint160
  Name :: string
  Methods :: "MethodAndPrice list"
  Events :: "Event list"
  ActiveHFs :: "Hardfork set"
  mdCache :: "Hardfork \<rightharpoonup> HFSpecificContractMD"
  onManifestConstruction :: "(manifest_Manifest \<Rightarrow> manifest_Manifest) option"

text \<open>
  \<open>NewContractMD\<close>. The hash is \<open>state.CreateNativeContractHash(name)\<close>, a function outside
  the modelled files: the argument \<open>mkHash\<close>.
\<close>

definition NewContractMD ::
  "(string \<Rightarrow> Uint160) \<Rightarrow> string \<Rightarrow> 32 word \<Rightarrow> (manifest_Manifest \<Rightarrow> manifest_Manifest) option \<Rightarrow> ContractMD" where
  "NewContractMD mkHash name cid cb =
     \<lparr> ContractMD.ID = cid, ContractMD.Hash = mkHash name, ContractMD.Name = name,
       ContractMD.Methods = [], ContractMD.Events = [], ActiveHFs = {},
       mdCache = Map.empty, onManifestConstruction = cb \<rparr>"

subsection \<open>Registration\<close>

text \<open>
  Modelled from the spec: the call-flag constants are not in the modelled files. The
  spec gives \<open>ReadOnly = ReadStates|AllowCall\<close>, \<open>States = ReadStates|WriteStates\<close> and
  \<open>All = States|AllowCall|AllowNotify\<close>; the four capability bits are taken in the
  order in which the spec lists them.
\<close>

definition callflag_ReadStates :: CallFlag where "callflag_ReadStates = 1"
definition callflag_WriteStates :: CallFlag where "callflag_WriteStates = 2"
definition callflag_AllowCall :: CallFlag where "callflag_AllowCall = 4"
definition callflag_AllowNotify :: CallFlag where "callflag_AllowNotify = 8"

definition callflag_ReadOnly :: CallFlag where
  "callflag_ReadOnly = callflag_ReadStates OR callflag_AllowCall"

definition callflag_States :: CallFlag where
  "callflag_States = callflag_ReadStates OR callflag_WriteStates"

definition callflag_All :: CallFlag where
  "callflag_All = callflag_States OR callflag_AllowCall OR callflag_AllowNotify"

text \<open>
  The predicate of the search in \<open>AddMethod\<close>: it reads the descriptor of the method at
  index \<open>i\<close> and the new descriptor \<open>desc\<close> through their pointers.
\<close>

definition AddMethod_after ::
  "heap \<Rightarrow> MethodAndPrice list \<Rightarrow> pointer \<Rightarrow> nat \<Rightarrow> error + bool" where
  "AddMethod_after h ms desc i =
     (case load h (HFSpecificMethodAndPrice.MD (HFSpecificMethodAndPrice (ms ! i))) of
        Inl e \<Rightarrow> Inl e
      | Inr md \<Rightarrow>
          (case load h desc of
             Inl e \<Rightarrow> Inl e
           | Inr d \<Rightarrow>
               Inr (if manifest_Method.Name md \<noteq> manifest_Method.Name d
                    then manifest_Method.Name md \<ge> manifest_Method.Name d
                    else length (manifest_Method.Parameters md)
                           > length (manifest_Method.Parameters d))))"

text \<open>The zero value \<open>MethodAndPrice{}\<close> that \<open>append\<close> adds before the shift.\<close>

definition zero_MethodAndPrice :: MethodAndPrice where
  "zero_MethodAndPrice =
     \<lparr> HFSpecificMethodAndPrice =
         \<lparr> HFSpecificMethodAndPrice.Func = 0, HFSpecificMethodAndPrice.MD = None, CPUFee = 0,
           StorageFee = 0, SyscallOffset = 0, HFSpecificMethodAndPrice.RequiredFlags = 0 \<rparr>,
       MethodAndPrice.ActiveFrom = None \<rparr>"

text \<open>
  \<open>copy(dst, src)\<close> on overlapping parts of one slice \<open>xs\<close>, for
  \<open>copy(xs[index+1:], xs[index:])\<close>: the elements from \<open>index\<close> on move one place up, the
  last one is dropped.
\<close>

definition shift_up :: "nat \<Rightarrow> 'a list \<Rightarrow> 'a list" where
  "shift_up index xs = take (index + 1) xs @ take (length xs - (index + 1)) (drop index xs)"

text \<open>
  \<open>AddMethod(md, desc)\<close> on the store \<open>h\<close>. The declaration \<open>md\<close> is passed by value; the
  write \<open>md.MD = desc\<close> shows in the element that is inserted. \<open>desc.Safe = ...\<close> writes
  through \<open>desc\<close> and panics when it is nil.
\<close>

definition AddMethod ::
  "heap \<Rightarrow> ContractMD \<Rightarrow> MethodAndPrice \<Rightarrow> pointer \<Rightarrow> error + heap \<times> ContractMD" where
  "AddMethod h c md desc =
     (case load h desc of
        Inl e \<Rightarrow> Inl e
      | Inr d \<Rightarrow>
          (let md1 = md\<lparr> HFSpecificMethodAndPrice :=
                         (HFSpecificMethodAndPrice md)\<lparr> HFSpecificMethodAndPrice.MD := desc \<rparr> \<rparr>;
               safe = (HFSpecificMethodAndPrice.RequiredFlags (HFSpecificMethodAndPrice md1)
                         AND (callflag_All XOR callflag_ReadOnly) = 0);
               h1 = h[the desc := d\<lparr> Safe := safe \<rparr>]
           in case Search (length (ContractMD.Methods c)) (AddMethod_after h1 (ContractMD.Methods c) desc) of
                Inl e \<Rightarrow> Inl e
              | Inr index \<Rightarrow>
                  Inr (h1,
                       c\<lparr> ContractMD.Methods :=
                            (shift_up index (ContractMD.Methods c @ [zero_MethodAndPrice]))[index := md1],
                          ActiveHFs :=
                            (case MethodAndPrice.ActiveFrom md1 of
                               None \<Rightarrow> ActiveHFs c
                             | Some hf \<Rightarrow> insert hf (ActiveHFs c)) \<rparr>)))"

text \<open>\<open>AddEvent\<close> appends.\<close>

definition AddEvent :: "ContractMD \<Rightarrow> Event \<Rightarrow> ContractMD" where
  "AddEvent c md =
     c\<lparr> ContractMD.Events := ContractMD.Events c @ [md],
        ActiveHFs :=
          (case Event.ActiveFrom md of
             None \<Rightarrow> ActiveHFs c
           | Some hf \<Rightarrow> insert hf (ActiveHFs c)) \<rparr>"

text \<open>
  A registration is a sequence of \<open>AddMethod\<close> calls, each with its declaration and the
  pointer to its descriptor; it stops at the first panic.
\<close>

fun AddMethods ::
  "heap \<Rightarrow> ContractMD \<Rightarrow> (MethodAndPrice \<times> pointer) list \<Rightarrow> error + heap \<times> ContractMD" where
  "AddMethods h c [] = Inr (h, c)"
| "AddMethods h c ((md, desc) # rest) =
     (case AddMethod h c md desc of
        Inl e \<Rightarrow> Inl e
      | Inr (h1, c1) \<Rightarrow> AddMethods h1 c1 rest)"

subsection \<open>Method lookup\<close>

text \<open>\<open>strings.Compare\<close> of the Go standard library.\<close>

definition Compare :: "string \<Rightarrow> string \<Rightarrow> int" where
  "Compare a b = (if a = b then 0 else if a < b then - 1 else 1)"

text \<open>The predicate of the search in \<open>GetMethod\<close>, at index \<open>i\<close>.\<close>

definition GetMethod_reached ::
  "heap \<Rightarrow> HFSpecificMethodAndPrice list \<Rightarrow> string \<Rightarrow> int \<Rightarrow> nat \<Rightarrow> error + bool" where
  "GetMethod_reached h ms name paramCount i =
     (case load h (HFSpecificMethodAndPrice.MD (ms ! i)) of
        Inl e \<Rightarrow> Inl e
      | Inr md \<Rightarrow>
          Inr (let res = Compare name (manifest_Method.Name md)
               in if res = - 1 \<or> res = 1 then res = - 1
                  else paramCount \<le> int (length (manifest_Method.Parameters md))))"

text \<open>
  \<open>GetMethod\<close> returns the method and \<open>true\<close>, or the zero value and \<open>false\<close>: \<open>Some\<close> of the
  method, or \<open>None\<close>.
\<close>

definition GetMethod ::
  "heap \<Rightarrow> HFSpecificContractMD \<Rightarrow> string \<Rightarrow> int \<Rightarrow> error + HFSpecificMethodAndPrice option" where
  "GetMethod h c name paramCount =
     (case Search (length (HFSpecificContractMD.Methods c))
             (GetMethod_reached h (HFSpecificContractMD.Methods c) name paramCount) of
        Inl e \<Rightarrow> Inl e
      | Inr index \<Rightarrow>
          if index < length (HFSpecificContractMD.Methods c) then
            (let md = HFSpecificContractMD.Methods c ! index
             in case load h (HFSpecificMethodAndPrice.MD md) of
                  Inl e \<Rightarrow> Inl e
                | Inr d \<Rightarrow>
                    if manifest_Method.Name d = name
                       \<and> (paramCount = - 1 \<or> int (length (manifest_Method.Parameters d)) = paramCount)
                    then Inr (Some md) else Inr None)
          else Inr None)"

definition GetMethodByOffset :: "HFSpecificContractMD \<Rightarrow> int \<Rightarrow> HFSpecificMethodAndPrice option" where
  "GetMethodByOffset c offset =
     find (\<lambda>m. SyscallOffset m = offset) (HFSpecificContractMD.Methods c)"

subsection \<open>Hardfork-specific descriptors\<close>

text \<open>
  Modelled from the spec: \<open>config.Hardfork\<close> and its method \<open>Cmp\<close> are not in the modelled
  files. The spec says that older hardforks are smaller; \<open>Cmp\<close> is the three-way
  comparison of that order, with the results of Go's comparison functions (as
  \<open>strings.Compare\<close> above): negative when the receiver is the smaller one.
\<close>

definition Cmp :: "Hardfork \<Rightarrow> Hardfork \<Rightarrow> int" where
  "Cmp hf other = (if hf = other then 0 else if hf < other then - 1 else 1)"

text \<open>
  The test of both loops of \<open>buildHFSpecificMD\<close>, without its negation:
  \<open>m.ActiveFrom == nil || (hf != nil && (*m.ActiveFrom).Cmp(*hf) >= 0)\<close>.
\<close>

definition included :: "Hardfork option \<Rightarrow> Hardfork option \<Rightarrow> bool" where
  "included activeFrom hf =
     (case activeFrom of
        None \<Rightarrow> True
      | Some a \<Rightarrow> (case hf of None \<Rightarrow> False | Some k \<Rightarrow> Cmp a k \<ge> 0))"

text \<open>
  Modelled from the spec: the packages \<open>emit\<close>, \<open>opcode\<close> and \<open>interopnames\<close> are not in the
  modelled files. The spec gives the stub of a method as \<open>PUSHINT8 0x00\<close> (2 bytes),
  \<open>SYSCALL <id>\<close> (5 bytes, the id of \<open>System.Contract.CallNative\<close>) and \<open>RET\<close> (1 byte).
  The byte values of the three opcodes are those of the Neo VM instruction set, and the
  id is written with the least significant byte first. The id of a syscall name is the
  first four bytes of a SHA-256 hash: the function from names to ids is the argument
  \<open>toID\<close>. The writer is the list of the bytes written so far (a write to the buffer in
  memory does not fail), and \<open>w.Len()\<close> is its length.
\<close>

definition opcode_PUSHINT8 :: byte where "opcode_PUSHINT8 = 0x00"
definition opcode_SYSCALL :: byte where "opcode_SYSCALL = 0x41"
definition opcode_RET :: byte where "opcode_RET = 0x40"

definition SystemContractCallNative :: string where
  "SystemContractCallNative = ''System.Contract.CallNative''"

definition emit_Opcodes :: "byte list \<Rightarrow> byte list \<Rightarrow> byte list" where
  "emit_Opcodes buf ops = buf @ ops"

definition emit_Int :: "byte list \<Rightarrow> int64 \<Rightarrow> byte list" where
  "emit_Int buf i = buf @ [opcode_PUSHINT8, ucast i]"

definition uint32_bytes :: "uint32 \<Rightarrow> byte list" where
  "uint32_bytes x = [ucast x, ucast (drop_bit 8 x), ucast (drop_bit 16 x), ucast (drop_bit 24 x)]"

definition emit_Syscall :: "(string \<Rightarrow> uint32) \<Rightarrow> byte list \<Rightarrow> string \<Rightarrow> byte list" where
  "emit_Syscall toID buf api = buf @ opcode_SYSCALL # uint32_bytes (toID api)"

text \<open>
  The state of the first loop: the writer, the store, and the two slices that grow.
\<close>

record build_state =
  writer :: "byte list"
  descriptors :: heap
  abiMethods :: "manifest_Method list"
  methods :: "HFSpecificMethodAndPrice list"

text \<open>
  The body of the first loop for a method \<open>m\<close> that passes the test. \<open>md := *m.MD\<close> copies
  the descriptor (and panics on nil), \<open>m.MD = &md\<close> points the local copy of the
  declaration to the new cell, and the offset is written there.
\<close>

definition build_method :: "(string \<Rightarrow> uint32) \<Rightarrow> MethodAndPrice \<Rightarrow> build_state \<Rightarrow> error + build_state" where
  "build_method toID m s =
     (case load (descriptors s) (HFSpecificMethodAndPrice.MD (HFSpecificMethodAndPrice m)) of
        Inl e \<Rightarrow> Inl e
      | Inr md \<Rightarrow>
          (case new (descriptors s) md of
             (a, h1) \<Rightarrow>
               (let h2 = h1[a := (h1 ! a)\<lparr> Offset := int (length (writer s)) \<rparr>];
                    w1 = emit_Int (writer s) 0;
                    m1 = (HFSpecificMethodAndPrice m)
                           \<lparr> HFSpecificMethodAndPrice.MD := Some a, SyscallOffset := int (length w1) \<rparr>;
                    w2 = emit_Syscall toID w1 SystemContractCallNative;
                    w3 = emit_Opcodes w2 [opcode_RET]
                in Inr \<lparr> writer = w3, descriptors = h2,
                         abiMethods = abiMethods s @ [h2 ! a], methods = methods s @ [m1] \<rparr>)))"

fun build_methods ::
  "(string \<Rightarrow> uint32) \<Rightarrow> Hardfork option \<Rightarrow> MethodAndPrice list \<Rightarrow> build_state \<Rightarrow> error + build_state" where
  "build_methods toID hf [] s = Inr s"
| "build_methods toID hf (m # ms) s =
     (if \<not> included (MethodAndPrice.ActiveFrom m) hf then build_methods toID hf ms s
      else case build_method toID m s of
             Inl e \<Rightarrow> Inl e
           | Inr s1 \<Rightarrow> build_methods toID hf ms s1)"

text \<open>The second loop: \<open>*e.MD\<close> panics on nil.\<close>

fun build_events ::
  "Hardfork option \<Rightarrow> Event list \<Rightarrow> manifest_Event list \<times> HFSpecificEvent list \<Rightarrow>
   error + manifest_Event list \<times> HFSpecificEvent list" where
  "build_events hf [] acc = Inr acc"
| "build_events hf (e # es) (abiEvents, events) =
     (if \<not> included (Event.ActiveFrom e) hf then build_events hf es (abiEvents, events)
      else case HFSpecificEvent.MD (HFSpecificEvent e) of
             None \<Rightarrow> Inl NilDereference
           | Some d \<Rightarrow> build_events hf es (abiEvents @ [d], events @ [HFSpecificEvent e]))"

text \<open>
  \<open>buildHFSpecificMD\<close> on the store \<open>h\<close>: the result is the store and the contract as the
  function leaves them (the contract with the new cache entry) and the descriptor
  built, or the panic.
\<close>

definition buildHFSpecificMD ::
  "(string \<Rightarrow> uint32) \<Rightarrow> heap \<Rightarrow> ContractMD \<Rightarrow> Hardfork option \<Rightarrow>
   error + heap \<times> ContractMD \<times> HFSpecificContractMD" where
  "buildHFSpecificMD toID h c hf =
     (case build_methods toID hf (ContractMD.Methods c)
             \<lparr> writer = [], descriptors = h, abiMethods = [], methods = [] \<rparr> of
        Inl e \<Rightarrow> Inl e
      | Inr s \<Rightarrow>
          (case build_events hf (ContractMD.Events c) ([], []) of
             Inl e \<Rightarrow> Inl e
           | Inr (abiEvents, events) \<Rightarrow>
               (let nf = \<lparr> Compiler = ''neo-core-v3.0'', Script = writer s \<rparr>;
                    m = (DefaultManifest (ContractMD.Name c))
                          \<lparr> ABI := \<lparr> manifest_ABI.Methods = abiMethods s,
                                     manifest_ABI.Events = abiEvents \<rparr> \<rparr>;
                    m' = (case onManifestConstruction c of None \<Rightarrow> m | Some cb \<Rightarrow> cb m);
                    key = (case hf of None \<Rightarrow> 0 | Some k \<Rightarrow> k);
                    md = \<lparr> ContractBase =
                             \<lparr> state_ContractBase.ID = ContractMD.ID c,
                               state_ContractBase.Hash = ContractMD.Hash c,
                               NEF = nf, Manifest = m' \<rparr>,
                           HFSpecificContractMD.Methods = methods s,
                           HFSpecificContractMD.Events = events \<rparr>
                in Inr (descriptors s, c\<lparr> mdCache := (mdCache c)(key \<mapsto> md) \<rparr>, md))))"

text \<open>
  The method \<open>HFSpecificContractMD\<close> of \<open>ContractMD\<close>: the cached descriptor, or a new one.
\<close>

definition ContractMD_HFSpecificContractMD ::
  "(string \<Rightarrow> uint32) \<Rightarrow> heap \<Rightarrow> ContractMD \<Rightarrow> Hardfork option \<Rightarrow>
   error + heap \<times> ContractMD \<times> HFSpecificContractMD" where
  "ContractMD_HFSpecificContractMD toID h c hf =
     (case mdCache c (case hf of None \<Rightarrow> 0 | Some k \<Rightarrow> k) of
        Some md \<Rightarrow> Inr (h, c, md)
      | None \<Rightarrow> buildHFSpecificMD toID h c hf)"

subsection \<open>Closed forms of the first loop\<close>

text \<open>
  Used to state what the loop computes. \<open>method_stub\<close> is the code emitted for one method,
  \<open>kept\<close> the declarations that pass the loop's test. A pointer is valid in a store when it
  is nil or an allocated address (every Go pointer is). \<open>clones\<close> lists the copies that the
  loop allocates for a list of declarations, the first at offset \<open>off\<close>; \<open>outputs\<close> lists
  the hardfork-specific methods, the first pointing to \<open>a\<close>.
\<close>

definition method_stub :: "(string \<Rightarrow> uint32) \<Rightarrow> byte list" where
  "method_stub toID =
     emit_Opcodes (emit_Syscall toID (emit_Int [] 0) SystemContractCallNative) [opcode_RET]"

definition valid_pointer :: "heap \<Rightarrow> pointer \<Rightarrow> bool" where
  "valid_pointer h p = (case p of None \<Rightarrow> True | Some a \<Rightarrow> a < length h)"

fun clones :: "heap \<Rightarrow> nat \<Rightarrow> MethodAndPrice list \<Rightarrow> manifest_Method list" where
  "clones h off [] = []"
| "clones h off (m # ms) =
     (h ! the (HFSpecificMethodAndPrice.MD (HFSpecificMethodAndPrice m)))\<lparr> Offset := int off \<rparr>
       # clones h (off + 8) ms"

fun outputs :: "nat \<Rightarrow> nat \<Rightarrow> MethodAndPrice list \<Rightarrow> HFSpecificMethodAndPrice list" where
  "outputs a off [] = []"
| "outputs a off (m # ms) =
     (HFSpecificMethodAndPrice m)\<lparr> HFSpecificMethodAndPrice.MD := Some a, SyscallOffset := int off + 2 \<rparr>
       # outputs (Suc a) (off + 8) ms"

definition kept :: "Hardfork option \<Rightarrow> MethodAndPrice list \<Rightarrow> MethodAndPrice list" where
  "kept hf ms = filter (\<lambda>m. included (MethodAndPrice.ActiveFrom m) hf) ms"

definition kept_events :: "Hardfork option \<Rightarrow> Event list \<Rightarrow> Event list" where
  "kept_events hf es = filter (\<lambda>e. included (Event.ActiveFrom e) hf) es"

subsection \<open>The order of a method table\<close>

text \<open>
  The key of a method is the name and the number of parameters of its descriptor, read
  through the store. A table is allocated when every method points to an allocated
  descriptor. \<open>methods_sorted\<close> is the order that the code keeps: ascending by name and,
  among equal names, ascending by parameter count (the lexicographic order of the keys).
  \<open>methods_sorted_desc\<close> is the order that the spec states: ascending by name and, among
  equal names, descending by parameter count.
\<close>

definition method_key :: "heap \<Rightarrow> HFSpecificMethodAndPrice \<Rightarrow> string \<times> nat" where
  "method_key h m =
     (case load h (HFSpecificMethodAndPrice.MD m) of
        Inr d \<Rightarrow> (manifest_Method.Name d, length (manifest_Method.Parameters d))
      | Inl e \<Rightarrow> ([], 0))"

definition methods_allocated :: "heap \<Rightarrow> HFSpecificMethodAndPrice list \<Rightarrow> bool" where
  "methods_allocated h ms =
     list_all (\<lambda>m. HFSpecificMethodAndPrice.MD m \<noteq> None
                    \<and> the (HFSpecificMethodAndPrice.MD m) < length h) ms"

definition methods_sorted :: "heap \<Rightarrow> HFSpecificMethodAndPrice list \<Rightarrow> bool" where
  "methods_sorted h ms = sorted (map (method_key h) ms)"

definition methods_sorted_desc :: "heap \<Rightarrow> HFSpecificMethodAndPrice list \<Rightarrow> bool" where
  "methods_sorted_desc h ms =
     sorted_wrt (\<lambda>a b. fst a < fst b \<or> (fst a = fst b \<and> snd b \<le> snd a)) (map (method_key h) ms)"

text \<open>
  A registration whose descriptor pointers are all allocated addresses of the store.
\<close>

definition registrations_allocated :: "heap \<Rightarrow> (MethodAndPrice \<times> pointer) list \<Rightarrow> bool" where
  "registrations_allocated h regs = list_all (\<lambda>r. snd r \<noteq> None \<and> the (snd r) < length h) regs"

subsection \<open>Example contracts\<close>

text \<open>
  A descriptor with a name and \<open>n\<close> parameters; a declaration with handler \<open>fn\<close>, descriptor
  pointer \<open>p\<close> and activation hardfork \<open>af\<close>; an event. The contract of the hardfork
  scenario has methods \<open>m1\<close> (always active), \<open>m2\<close> (from hardfork 1) and \<open>m3\<close> (from hardfork
  2), with handlers 1, 2 and 3, and events \<open>e1\<close>, \<open>e2\<close>, \<open>e3\<close> declared likewise.
\<close>

definition method_desc :: "string \<Rightarrow> nat \<Rightarrow> manifest_Method" where
  "method_desc name n =
     \<lparr> manifest_Method.Name = name, Offset = 0,
       manifest_Method.Parameters = replicate n \<lparr> manifest_Parameter.Name = ''arg'', Type = 0 \<rparr>,
       ReturnType = 0, Safe = False \<rparr>"

definition method_decl :: "nat \<Rightarrow> pointer \<Rightarrow> Hardfork option \<Rightarrow> MethodAndPrice" where
  "method_decl fn p af =
     \<lparr> HFSpecificMethodAndPrice =
         \<lparr> HFSpecificMethodAndPrice.Func = fn, HFSpecificMethodAndPrice.MD = p, CPUFee = 0,
           StorageFee = 0, SyscallOffset = 0, HFSpecificMethodAndPrice.RequiredFlags = 0 \<rparr>,
       MethodAndPrice.ActiveFrom = af \<rparr>"

definition event_decl :: "string \<Rightarrow> Hardfork option \<Rightarrow> Event" where
  "event_decl name af =
     \<lparr> HFSpecificEvent =
         \<lparr> HFSpecificEvent.MD = Some \<lparr> manifest_Event.Name = name, manifest_Event.Parameters = [] \<rparr> \<rparr>,
       Event.ActiveFrom = af \<rparr>"

definition empty_contract :: ContractMD where
  "empty_contract = NewContractMD (\<lambda>_. 0) ''Test'' (- 1) None"

definition example_toID :: "string \<Rightarrow> uint32" where
  "example_toID api = 0x677bf71a"

definition hf_heap :: heap where
  "hf_heap = [method_desc ''m1'' 0, method_desc ''m2'' 0, method_desc ''m3'' 0]"

definition hf_contract :: ContractMD where
  "hf_contract =
     empty_contract
       \<lparr> ContractMD.Methods :=
           [method_decl 1 (Some 0) None, method_decl 2 (Some 1) (Some 1), method_decl 3 (Some 2) (Some 2)],
         ContractMD.Events :=
           [event_decl ''e1'' None, event_decl ''e2'' (Some 1), event_decl ''e3'' (Some 2)],
         ActiveHFs := {1, 2} \<rparr>"

text \<open>
  The names in a built method table, read through the store, and in an event table.
\<close>

definition method_names :: "heap \<Rightarrow> HFSpecificMethodAndPrice list \<Rightarrow> string list" where
  "method_names h ms =
     map (\<lambda>m. case load h (HFSpecificMethodAndPrice.MD m) of
                 Inr d \<Rightarrow> manifest_Method.Name d
               | Inl e \<Rightarrow> []) ms"

definition event_names :: "HFSpecificEvent list \<Rightarrow> string list" where
  "event_names es =
     map (\<lambda>e. case HFSpecificEvent.MD e of Some d \<Rightarrow> manifest_Event.Name d | None \<Rightarrow> []) es"

text \<open>
  The overload scenario: \<open>copy\<close> with 2, 3 and 1 parameters, registered in this order with
  handlers 1, 2 and 3. \<open>copy_contract\<close> over \<open>copy_heap_registered\<close> is what the registration
  yields (\<open>copy_registration\<close> below).
\<close>

definition copy_heap :: heap where
  "copy_heap = [method_desc ''copy'' 2, method_desc ''copy'' 3, method_desc ''copy'' 1]"

definition copy_regs :: "(MethodAndPrice \<times> pointer) list" where
  "copy_regs = [(method_decl 1 None None, Some 0), (method_decl 2 None None, Some 1), (method_decl 3 None None, Some 2)]"

definition copy_heap_registered :: heap where
  "copy_heap_registered = map (\<lambda>d. d\<lparr> Safe := True \<rparr>) copy_heap"

definition copy_contract :: ContractMD where
  "copy_contract =
     empty_contract
       \<lparr> ContractMD.Methods :=
           [method_decl 3 (Some 2) None, method_decl 1 (Some 0) None, method_decl 2 (Some 1) None] \<rparr>"

section \<open>Properties of binary search\<close>

text \<open>
  The defining equation of the loop is applied by hand, one step at a time.
\<close>

declare Search_loop.simps [simp del]

lemma Search_loop_stop: "\<not> i < j \<Longrightarrow> Search_loop f i j = Inr i"
  by (subst Search_loop.simps) simp

lemma Search_loop_right:
  "i < j \<Longrightarrow> f ((i + j) div 2) = Inr False \<Longrightarrow> Search_loop f i j = Search_loop f ((i + j) div 2 + 1) j"
  by (subst Search_loop.simps) simp

lemma Search_loop_left:
  "i < j \<Longrightarrow> f ((i + j) div 2) = Inr True \<Longrightarrow> Search_loop f i j = Search_loop f i ((i + j) div 2)"
  by (subst Search_loop.simps) simp

lemma Search_loop_panic:
  "i < j \<Longrightarrow> f ((i + j) div 2) = Inl e \<Longrightarrow> Search_loop f i j = Inl e"
  by (subst Search_loop.simps) simp

lemma Search_loop_partition:
  "(\<forall>k<n. f k = Inr (g k)) \<Longrightarrow> (\<forall>a b. a \<le> b \<and> b < n \<and> g a \<longrightarrow> g b) \<Longrightarrow>
   i \<le> j \<Longrightarrow> j \<le> n \<Longrightarrow> (\<forall>k<i. \<not> g k) \<Longrightarrow> (\<forall>k. j \<le> k \<and> k < n \<longrightarrow> g k) \<Longrightarrow>
   \<exists>r. Search_loop f i j = Inr r \<and> r \<le> n \<and> (\<forall>k<r. \<not> g k) \<and> (\<forall>k. r \<le> k \<and> k < n \<longrightarrow> g k)"
proof (induction f i j rule: Search_loop.induct)
  case (1 f i j)
  note tot = "1.prems"(1) and mono = "1.prems"(2)
  show ?case
  proof (cases "i < j")
    case False
    with "1.prems"(3) have "i = j" by simp
    moreover have "Search_loop f i j = Inr i" using False by (rule Search_loop_stop)
    ultimately show ?thesis using "1.prems"(4,5,6) by simp
  next
    case True
    let ?h = "(i + j) div 2"
    from True "1.prems"(4) have hn: "?h < n" by linarith
    from True have ih: "i \<le> ?h" by linarith
    from True have hj: "?h < j" by linarith
    from tot hn have fb: "f ?h = Inr (g ?h)" by blast
    show ?thesis
    proof (cases "g ?h")
      case True
      have up: "\<forall>k. ?h \<le> k \<and> k < n \<longrightarrow> g k"
        using mono True by blast
      have hn': "?h \<le> n" using hn by simp
      have "\<exists>r. Search_loop f i ?h = Inr r \<and> r \<le> n \<and> (\<forall>k<r. \<not> g k) \<and> (\<forall>k. r \<le> k \<and> k < n \<longrightarrow> g k)"
        using fb True by (intro "1.IH"(2) [OF \<open>i < j\<close> _ _ tot mono ih hn' "1.prems"(5) up]) simp_all
      moreover have "Search_loop f i j = Search_loop f i ?h"
        using \<open>i < j\<close> fb True by (simp add: Search_loop_left)
      ultimately show ?thesis by simp
    next
      case False
      have low: "\<forall>k<?h + 1. \<not> g k"
      proof (intro allI impI)
        fix k assume "k < ?h + 1"
        then have "k \<le> ?h" by simp
        with mono hn False show "\<not> g k" by blast
      qed
      from hj have hj': "?h + 1 \<le> j" by simp
      have "\<exists>r. Search_loop f (?h + 1) j = Inr r \<and> r \<le> n \<and> (\<forall>k<r. \<not> g k) \<and> (\<forall>k. r \<le> k \<and> k < n \<longrightarrow> g k)"
        using fb False by (intro "1.IH"(1) [OF \<open>i < j\<close> _ _ tot mono hj' "1.prems"(4) low "1.prems"(6)]) simp_all
      moreover have "Search_loop f i j = Search_loop f (?h + 1) j"
        using \<open>i < j\<close> fb False by (simp add: Search_loop_right)
      ultimately show ?thesis by simp
    qed
  qed
qed

lemma Search_partition:
  assumes "\<forall>k<n. f k = Inr (g k)"
      and "\<forall>a b. a \<le> b \<and> b < n \<and> g a \<longrightarrow> g b"
  shows "\<exists>r. Search n f = Inr r \<and> r \<le> n \<and> (\<forall>k<r. \<not> g k) \<and> (\<forall>k. r \<le> k \<and> k < n \<longrightarrow> g k)"
proof -
  have "\<exists>r. Search_loop f 0 n = Inr r \<and> r \<le> n \<and> (\<forall>k<r. \<not> g k) \<and> (\<forall>k. r \<le> k \<and> k < n \<longrightarrow> g k)"
    by (rule Search_loop_partition [OF assms]) auto
  then show ?thesis by (simp add: Search_def)
qed

lemma Search_loop_bounds:
  "Search_loop f i j = Inr r \<Longrightarrow> i \<le> j \<Longrightarrow> i \<le> r \<and> r \<le> j"
proof (induction f i j rule: Search_loop.induct)
  case (1 f i j)
  show ?case
  proof (cases "i < j")
    case False
    with "1.prems" show ?thesis by (simp add: Search_loop_stop)
  next
    case True
    let ?h = "(i + j) div 2"
    from True have ih: "i \<le> ?h" and hj: "?h < j" by linarith+
    show ?thesis
    proof (cases "f ?h")
      case (Inl e)
      with True "1.prems" show ?thesis by (simp add: Search_loop_panic)
    next
      case (Inr b)
      show ?thesis
      proof (cases b)
        case True
        with Inr \<open>i < j\<close> "1.prems" have "Search_loop f i ?h = Inr r" by (simp add: Search_loop_left)
        from "1.IH"(2) [OF \<open>i < j\<close> Inr _ this ih] True hj show ?thesis by simp
      next
        case False
        with Inr \<open>i < j\<close> "1.prems" have "Search_loop f (?h + 1) j = Inr r" by (simp add: Search_loop_right)
        from "1.IH"(1) [OF \<open>i < j\<close> Inr _ this] False hj ih show ?thesis by simp
      qed
    qed
  qed
qed

lemma Search_bounds: "Search n f = Inr r \<Longrightarrow> r \<le> n"
  using Search_loop_bounds [of f 0 n r] by (simp add: Search_def)

section \<open>Properties of syscall dispatch\<close>

lemma GetFunction_Some:
  "GetFunction ic sid = Some f \<Longrightarrow> f \<in> set (Functions ic) \<and> Function.ID f = sid"
  by (auto simp: GetFunction_def split: sum.splits if_splits)

lemma GetFunction_absent:
  "\<forall>f \<in> set (Functions ic). Function.ID f \<noteq> sid \<Longrightarrow> GetFunction ic sid = None"
  by (auto simp: GetFunction_def split: sum.splits)

lemma GetFunction_sorted:
  assumes srt: "sorted_wrt (\<lambda>a b. Function.ID a \<le> Function.ID b) (Functions ic)"
      and mem: "f \<in> set (Functions ic)" and idf: "Function.ID f = sid"
  shows "\<exists>f'. GetFunction ic sid = Some f' \<and> f' \<in> set (Functions ic) \<and> Function.ID f' = sid"
proof -
  let ?fs = "Functions ic"
  let ?g = "\<lambda>k. Function.ID (?fs ! k) \<ge> sid"
  from mem obtain m where m: "m < length ?fs" "?fs ! m = f"
    by (auto simp: in_set_conv_nth)
  have mono: "\<forall>a b. a \<le> b \<and> b < length ?fs \<and> ?g a \<longrightarrow> ?g b"
  proof (intro allI impI)
    fix a b assume h: "a \<le> b \<and> b < length ?fs \<and> ?g a"
    show "?g b"
    proof (cases "a = b")
      case True with h show ?thesis by simp
    next
      case False
      with h have "a < b" by simp
      with h have "Function.ID (?fs ! a) \<le> Function.ID (?fs ! b)" by (intro sorted_wrt_nth_less [OF srt]) simp_all
      with h show ?thesis by (blast intro: order_trans)
    qed
  qed
  have "\<forall>k<length ?fs. Inr (?g k) = (Inr (?g k) :: error + bool)" by simp
  from Search_partition [of "length ?fs" "\<lambda>i. Inr (?g i)" ?g, OF this mono]
  obtain r where r: "Search (length ?fs) (\<lambda>i. Inr (?g i)) = Inr r" "r \<le> length ?fs"
      "\<forall>k<r. \<not> ?g k" "\<forall>k. r \<le> k \<and> k < length ?fs \<longrightarrow> ?g k"
    by blast
  have gm: "?g m" using m idf by simp
  have rm: "r \<le> m"
  proof (rule ccontr)
    assume "\<not> r \<le> m"
    then have "m < r" by simp
    with r(3) gm show False by blast
  qed
  with m have rl: "r < length ?fs" by simp
  have ge: "sid \<le> Function.ID (?fs ! r)" using r(4) rl by blast
  have le: "Function.ID (?fs ! r) \<le> sid"
  proof (cases "r = m")
    case True with m idf show ?thesis by simp
  next
    case False
    with rm have "r < m" by simp
    then have "Function.ID (?fs ! r) \<le> Function.ID (?fs ! m)" by (rule sorted_wrt_nth_less [OF srt _ m(1)])
    with m idf show ?thesis by simp
  qed
  from ge le have "Function.ID (?fs ! r) = sid" by simp
  with r(1) rl have "GetFunction ic sid = Some (?fs ! r)"
    by (simp add: GetFunction_def)
  with rl \<open>Function.ID (?fs ! r) = sid\<close> show ?thesis by simp
qed

text \<open>
  C6. Syscall dispatch with id \<open>sid\<close>. When no function is found the result is
  \<open>SyscallNotFound\<close> and the context is returned as it was: no gas is charged and no
  handler runs. When the frame's flags lack a required flag the result is
  \<open>MissingCallFlags\<close> with both bitsets, again on the unchanged context. Otherwise the
  price times the base fee is charged first: when the budget does not allow it the
  result is \<open>InsufficientGas\<close> and no handler runs; when it does, the result is the
  handler's own, run once on the charged context. A function is found only if one with
  that id is registered, and in a table sorted by id every registered id is found.
\<close>

theorem SyscallHandler_order:
  "(GetFunction ic sid = None \<longrightarrow>
      SyscallHandler run GetCallFlags AddGas ic sid = (Some SyscallNotFound, ic))
 \<and> (\<forall>f. GetFunction ic sid = Some f \<and> \<not> Has (GetCallFlags (VM ic)) (Function.RequiredFlags f) \<longrightarrow>
      SyscallHandler run GetCallFlags AddGas ic sid
        = (Some (MissingCallFlags (GetCallFlags (VM ic)) (Function.RequiredFlags f)), ic))
 \<and> (\<forall>f vm'. GetFunction ic sid = Some f \<and> Has (GetCallFlags (VM ic)) (Function.RequiredFlags f)
        \<and> AddGas (Price f * baseExecFee ic) (VM ic) = (False, vm') \<longrightarrow>
      SyscallHandler run GetCallFlags AddGas ic sid = (Some InsufficientGas, ic\<lparr> VM := vm' \<rparr>))
 \<and> (\<forall>f vm'. GetFunction ic sid = Some f \<and> Has (GetCallFlags (VM ic)) (Function.RequiredFlags f)
        \<and> AddGas (Price f * baseExecFee ic) (VM ic) = (True, vm') \<longrightarrow>
      SyscallHandler run GetCallFlags AddGas ic sid = run (Function.Func f) (ic\<lparr> VM := vm' \<rparr>))
 \<and> ((\<forall>f \<in> set (Functions ic). Function.ID f \<noteq> sid) \<longrightarrow> GetFunction ic sid = None)
 \<and> (\<forall>f. GetFunction ic sid = Some f \<longrightarrow> f \<in> set (Functions ic) \<and> Function.ID f = sid)
 \<and> (sorted_wrt (\<lambda>a b. Function.ID a \<le> Function.ID b) (Functions ic) \<and> (\<exists>f \<in> set (Functions ic). Function.ID f = sid) \<longrightarrow>
      (\<exists>f. GetFunction ic sid = Some f))"
proof (intro conjI allI impI)
  show "SyscallHandler run GetCallFlags AddGas ic sid = (Some SyscallNotFound, ic)"
    if "GetFunction ic sid = None"
    using that by (simp add: SyscallHandler_def)
next
  fix f
  assume "GetFunction ic sid = Some f \<and> \<not> Has (GetCallFlags (VM ic)) (Function.RequiredFlags f)"
  then show "SyscallHandler run GetCallFlags AddGas ic sid
        = (Some (MissingCallFlags (GetCallFlags (VM ic)) (Function.RequiredFlags f)), ic)"
    by (simp add: SyscallHandler_def)
next
  fix f vm'
  assume "GetFunction ic sid = Some f \<and> Has (GetCallFlags (VM ic)) (Function.RequiredFlags f)
        \<and> AddGas (Price f * baseExecFee ic) (VM ic) = (False, vm')"
  then show "SyscallHandler run GetCallFlags AddGas ic sid = (Some InsufficientGas, ic\<lparr> VM := vm' \<rparr>)"
    by (simp add: SyscallHandler_def)
next
  fix f vm'
  assume "GetFunction ic sid = Some f \<and> Has (GetCallFlags (VM ic)) (Function.RequiredFlags f)
        \<and> AddGas (Price f * baseExecFee ic) (VM ic) = (True, vm')"
  then show "SyscallHandler run GetCallFlags AddGas ic sid = run (Function.Func f) (ic\<lparr> VM := vm' \<rparr>)"
    by (simp add: SyscallHandler_def)
next
  assume "\<forall>f \<in> set (Functions ic). Function.ID f \<noteq> sid"
  then show "GetFunction ic sid = None" by (rule GetFunction_absent)
next
  fix f assume "GetFunction ic sid = Some f"
  then show "f \<in> set (Functions ic)" "Function.ID f = sid" using GetFunction_Some by blast+
next
  assume "sorted_wrt (\<lambda>a b. Function.ID a \<le> Function.ID b) (Functions ic) \<and> (\<exists>f \<in> set (Functions ic). Function.ID f = sid)"
  then show "\<exists>f. GetFunction ic sid = Some f" using GetFunction_sorted by blast
qed

lemma Search_one: "Search (Suc 0) f = (case f 0 of Inl e \<Rightarrow> Inl e | Inr b \<Rightarrow> if b then Inr 0 else Inr 1)"
  by (simp add: Search_def Search_loop.simps [of f 0 "Suc 0"] Search_loop_stop split: sum.splits)

lemma dispatch_found:
  "GetFunction (dispatch_ctx fl lim) 42
     = Some \<lparr> Function.ID = 42, Function.Name = ''Test.Syscall'', Function.Func = 7, ParamCount = 0, Price = 100, Function.RequiredFlags = 2 \<rparr>"
  by (simp add: GetFunction_def dispatch_ctx_def Search_one)

lemma dispatch_absent: "GetFunction (dispatch_ctx fl lim) 41 = None"
  by (simp add: GetFunction_def dispatch_ctx_def Search_one)

lemma example_charge:
  "example_AddGas 3000 \<lparr> callFlags = fl, gasConsumed = 0, GasLimit = lim \<rparr>
     = (lim < 0 \<or> 3000 \<le> lim, \<lparr> callFlags = fl, gasConsumed = 3000, GasLimit = lim \<rparr>)"
  by (simp add: example_AddGas_def)

lemma dispatch_ctx_VM: "VM (dispatch_ctx fl lim) = \<lparr> callFlags = fl, gasConsumed = 0, GasLimit = lim \<rparr>"
  and dispatch_ctx_fee: "baseExecFee (dispatch_ctx fl lim) = 30"
  by (simp_all add: dispatch_ctx_def)

text \<open>
  The dispatch scenario of the spec: syscall 42 costs 100 and requires flag 2, the base
  fee is 30. An unknown id; the wrong flag with a large budget; the right flag with a
  budget of 50; the right flag with a budget of 3000.
\<close>

theorem SyscallHandler_order_witness:
  "SyscallHandler example_run callFlags example_AddGas (dispatch_ctx 2 3000) 41
     = (Some SyscallNotFound, dispatch_ctx 2 3000)
 \<and> SyscallHandler example_run callFlags example_AddGas (dispatch_ctx 1 300000) 42
     = (Some (MissingCallFlags 1 2), dispatch_ctx 1 300000)
 \<and> SyscallHandler example_run callFlags example_AddGas (dispatch_ctx 2 50) 42
     = (Some InsufficientGas,
        (dispatch_ctx 2 50)\<lparr> VM := \<lparr> callFlags = 2, gasConsumed = 3000, GasLimit = 50 \<rparr> \<rparr>)
 \<and> SyscallHandler example_run callFlags example_AddGas (dispatch_ctx 2 3000) 42
     = (None, (dispatch_ctx 2 3000)\<lparr> VM := \<lparr> callFlags = 0, gasConsumed = 3000, GasLimit = 3000 \<rparr> \<rparr>)"
proof -
  have absent: "SyscallHandler example_run callFlags example_AddGas (dispatch_ctx 2 3000) 41
     = (Some SyscallNotFound, dispatch_ctx 2 3000)"
    using SyscallHandler_order [of "dispatch_ctx 2 3000" 41 example_run callFlags example_AddGas]
    by (simp add: dispatch_absent)
  have flags: "SyscallHandler example_run callFlags example_AddGas (dispatch_ctx 1 300000) 42
     = (Some (MissingCallFlags 1 2), dispatch_ctx 1 300000)"
    using SyscallHandler_order [of "dispatch_ctx 1 300000" 42 example_run callFlags example_AddGas]
    by (simp add: dispatch_found dispatch_ctx_VM Has_def)
  have gas: "SyscallHandler example_run callFlags example_AddGas (dispatch_ctx 2 50) 42
     = (Some InsufficientGas,
        (dispatch_ctx 2 50)\<lparr> VM := \<lparr> callFlags = 2, gasConsumed = 3000, GasLimit = 50 \<rparr> \<rparr>)"
    using SyscallHandler_order [of "dispatch_ctx 2 50" 42 example_run callFlags example_AddGas]
    by (simp add: dispatch_found dispatch_ctx_VM dispatch_ctx_fee example_charge Has_def)
  have runs: "SyscallHandler example_run callFlags example_AddGas (dispatch_ctx 2 3000) 42
     = (None, (dispatch_ctx 2 3000)\<lparr> VM := \<lparr> callFlags = 0, gasConsumed = 3000, GasLimit = 3000 \<rparr> \<rparr>)"
    using SyscallHandler_order [of "dispatch_ctx 2 3000" 42 example_run callFlags example_AddGas]
    by (simp add: dispatch_found dispatch_ctx_VM dispatch_ctx_fee example_charge Has_def example_run_def)
  from absent flags gas runs show ?thesis by (intro conjI)
qed

section \<open>Properties of the ledger view\<close>

text \<open>
  C10. If the attached block has index 0, \<open>BlockHeight\<close> does not fail: it wraps around
  and returns 4294967295. Every query derived from it then behaves as if the height
  were maximal: \<open>GetBlock\<close> hides no block of the ledger, \<open>CurrentBlockHash\<close> asks for the
  header hash at 4294967295, and both \<open>GetBlock\<close> and \<open>IsHardforkEnabled\<close> answer as a
  context with no block does over a ledger of height 4294967295.
\<close>

theorem BlockHeight_genesis_wraps:
  assumes "Block ic = Some b" and "Index b = 0"
  shows "BlockHeight ic = 4294967295
       \<and> GetBlock ic h = Ledger.GetBlock (Chain ic) h
       \<and> CurrentBlockHash ic = Ledger.GetHeaderHash (Chain ic) 4294967295
       \<and> GetBlock ic h = GetBlock (ic\<lparr> Block := None, Chain := (Chain ic)\<lparr> Ledger.BlockHeight := 4294967295 \<rparr> \<rparr>) h
       \<and> IsHardforkEnabled str ic hf
           = IsHardforkEnabled str (ic\<lparr> Block := None, Chain := (Chain ic)\<lparr> Ledger.BlockHeight := 4294967295 \<rparr> \<rparr>) hf"
proof -
  have bh: "BlockHeight ic = 4294967295"
    using assms by (simp add: BlockHeight_def)
  have top: "\<not> (x > (4294967295 :: uint32))" for x
  proof -
    have m: "(4294967295 :: uint32) = - 1" by simp
    show ?thesis unfolding m by (simp add: not_less)
  qed
  have gb: "GetBlock ic h = Ledger.GetBlock (Chain ic) h"
    by (simp add: GetBlock_def bh top split: sum.splits)
  have bh': "BlockHeight (ic\<lparr> Block := None, Chain := (Chain ic)\<lparr> Ledger.BlockHeight := 4294967295 \<rparr> \<rparr>) = 4294967295"
    by (simp add: BlockHeight_def)
  have gb': "GetBlock (ic\<lparr> Block := None, Chain := (Chain ic)\<lparr> Ledger.BlockHeight := 4294967295 \<rparr> \<rparr>) h
               = Ledger.GetBlock (Chain ic) h"
    unfolding GetBlock_def bh' by (simp add: top split: sum.splits)
  have m1: "(- 1 :: uint32) = 4294967295"
    by simp
  have cb: "CurrentBlockHash ic = Ledger.GetHeaderHash (Chain ic) 4294967295"
    using assms by (simp add: CurrentBlockHash_def m1)
  have he: "IsHardforkEnabled str ic hf
           = IsHardforkEnabled str (ic\<lparr> Block := None, Chain := (Chain ic)\<lparr> Ledger.BlockHeight := 4294967295 \<rparr> \<rparr>) hf"
    unfolding IsHardforkEnabled_def bh bh' by simp
  from bh gb cb gb' he show ?thesis by simp
qed

theorem BlockHeight_genesis_wraps_witness:
  "BlockHeight (persisting_ctx 7 0) = 4294967295
   \<and> GetBlock (persisting_ctx 7 0) 999 = Inr \<lparr> Index = 999 \<rparr>
   \<and> CurrentBlockHash (persisting_ctx 7 0) = 4294967295
   \<and> IsHardforkEnabled (\<lambda>_. ''Aspidochelone'') (persisting_ctx 7 0) 1 = False"
proof -
  have b: "Block (persisting_ctx 7 0) = Some \<lparr> Index = 0 \<rparr>"
    by (simp add: persisting_ctx_def)
  have i: "Index \<lparr> Index = 0 \<rparr> = 0"
    by simp
  show ?thesis
    using BlockHeight_genesis_wraps [OF b i, of 999 "\<lambda>_. ''Aspidochelone''" 1]
    by (simp add: persisting_ctx_def numbered_ledger_def IsHardforkEnabled_def BlockHeight_def)
qed

text \<open>
  C7 as stated says that \<open>GetBlock\<close> forwards directly to the ledger when no block is
  attached. It does not: the ledger of height 5 holds a block of index 7 under the hash
  7, and the context without a block answers \<open>ErrKeyNotFound\<close> for it.
\<close>

theorem GetBlock_unattached_counterexample:
  "Block (stored_ctx 5) = None
   \<and> Ledger.GetBlock (Chain (stored_ctx 5)) 7 = Inr \<lparr> Index = 7 \<rparr>
   \<and> GetBlock (stored_ctx 5) 7 = Inl ErrKeyNotFound"
  by (simp add: stored_ctx_def numbered_ledger_def GetBlock_def BlockHeight_def)

text \<open>
  C7, amended. With a block of index \<open>k\<close> attached, \<open>BlockHeight\<close> is \<open>k - 1\<close> (on 32-bit
  words), \<open>GetBlock\<close> answers \<open>ErrKeyNotFound\<close> for every block of the ledger whose index
  is greater than \<open>k - 1\<close> and returns every block whose index is at most \<open>k - 1\<close>. With
  no block attached, \<open>BlockHeight\<close> is the ledger's, and \<open>GetBlock\<close> applies the same
  filter with the ledger's height. An error of the ledger is returned as it is.
\<close>

theorem ledger_view:
  "(\<forall>b. Block ic = Some b \<longrightarrow>
      BlockHeight ic = Index b - 1
    \<and> (\<forall>h blk. Ledger.GetBlock (Chain ic) h = Inr blk \<and> Index blk > Index b - 1 \<longrightarrow>
          GetBlock ic h = Inl ErrKeyNotFound)
    \<and> (\<forall>h blk. Ledger.GetBlock (Chain ic) h = Inr blk \<and> Index blk \<le> Index b - 1 \<longrightarrow>
          GetBlock ic h = Inr blk))
 \<and> (Block ic = None \<longrightarrow>
      BlockHeight ic = Ledger.BlockHeight (Chain ic)
    \<and> (\<forall>h blk. Ledger.GetBlock (Chain ic) h = Inr blk \<and> Index blk > Ledger.BlockHeight (Chain ic) \<longrightarrow>
          GetBlock ic h = Inl ErrKeyNotFound)
    \<and> (\<forall>h blk. Ledger.GetBlock (Chain ic) h = Inr blk \<and> Index blk \<le> Ledger.BlockHeight (Chain ic) \<longrightarrow>
          GetBlock ic h = Inr blk))
 \<and> (\<forall>h e. Ledger.GetBlock (Chain ic) h = Inl e \<longrightarrow> GetBlock ic h = Inl e)"
  by (auto simp: GetBlock_def BlockHeight_def)

theorem ledger_view_witness:
  "BlockHeight (persisting_ctx 100 100) = 99
 \<and> GetBlock (persisting_ctx 100 100) 100 = Inl ErrKeyNotFound
 \<and> GetBlock (persisting_ctx 100 100) 99 = Inr \<lparr> Index = 99 \<rparr>
 \<and> BlockHeight (stored_ctx 5) = 5
 \<and> GetBlock (stored_ctx 5) 7 = Inl ErrKeyNotFound
 \<and> GetBlock (stored_ctx 5) 5 = Inr \<lparr> Index = 5 \<rparr>
 \<and> GetBlock (stored_ctx 5) 1000 = Inl (Failure ''no block'')"
proof -
  have att: "Block (persisting_ctx 100 100) = Some \<lparr> Index = 100 \<rparr>"
    and una: "Block (stored_ctx 5) = None"
    and ch: "Chain (persisting_ctx 100 100) = numbered_ledger 100" "Chain (stored_ctx 5) = numbered_ledger 5"
    by (simp_all add: persisting_ctx_def stored_ctx_def)
  have led: "Ledger.GetBlock (numbered_ledger n) 100 = Inr \<lparr> Index = 100 \<rparr>"
      "Ledger.GetBlock (numbered_ledger n) 99 = Inr \<lparr> Index = 99 \<rparr>"
      "Ledger.GetBlock (numbered_ledger n) 7 = Inr \<lparr> Index = 7 \<rparr>"
      "Ledger.GetBlock (numbered_ledger n) 5 = Inr \<lparr> Index = 5 \<rparr>"
      "Ledger.GetBlock (numbered_ledger n) 1000 = Inl (Failure ''no block'')"
      "Ledger.BlockHeight (numbered_ledger n) = n" for n
    by (simp_all add: numbered_ledger_def)
  show ?thesis
    using ledger_view [of "persisting_ctx 100 100"] ledger_view [of "stored_ctx 5"]
    by (simp add: att una ch led)
qed

subsection \<open>Hardfork tests\<close>

text \<open>
  The hardfork tests. \<open>IsHardforkEnabled\<close> holds exactly when the height is known and
  \<open>BlockHeight + 1\<close> reaches it. \<open>IsHardforkActivation\<close> with a block attached tells
  whether the block's index is the known height; with an unknown hardfork it is false.
\<close>

lemma IsHardforkEnabled_iff:
  "IsHardforkEnabled str ic hf \<longleftrightarrow> (\<exists>height. Hardforks ic (str hf) = Some height \<and> BlockHeight ic + 1 \<ge> height)"
  by (simp add: IsHardforkEnabled_def split: option.splits)

lemma IsHardforkActivation_attached:
  "Block ic = Some b \<Longrightarrow>
   IsHardforkActivation str ic hf = Inr (Hardforks ic (str hf) = Some (Index b))"
  by (auto simp: IsHardforkActivation_def split: option.splits)

lemma IsHardforkActivation_unknown:
  "Hardforks ic (str hf) = None \<Longrightarrow> IsHardforkActivation str ic hf = Inr False"
  by (simp add: IsHardforkActivation_def)

lemma IsHardforkActivation_panics_iff:
  "IsHardforkActivation str ic hf = Inl e \<longleftrightarrow>
     e = NilDereference \<and> Block ic = None \<and> Hardforks ic (str hf) \<noteq> None"
  by (auto simp: IsHardforkActivation_def split: option.splits)

text \<open>
  C8. The claim says that \<open>IsHardforkActivation\<close> returns false when no block is
  attached. With the hardfork known and no block attached, the method reads the index
  through the nil block pointer: in the context below, where \<open>IsHardforkEnabled\<close>
  answers, \<open>IsHardforkActivation\<close> panics.
\<close>

theorem IsHardforkActivation_unattached_panics:
  "Block (stored_ctx 100) = None
 \<and> Hardforks (stored_ctx 100) ''Aspidochelone'' = Some 100
 \<and> IsHardforkEnabled (\<lambda>_. ''Aspidochelone'') (stored_ctx 100) 1
 \<and> IsHardforkActivation (\<lambda>_. ''Aspidochelone'') (stored_ctx 100) 1 = Inl NilDereference"
  by (simp add: stored_ctx_def numbered_ledger_def IsHardforkActivation_def IsHardforkEnabled_def BlockHeight_def)

section \<open>Properties of the hardfork-specific descriptors\<close>

lemma length_method_stub: "length (method_stub toID) = 8"
  by (simp add: method_stub_def emit_Opcodes_def emit_Syscall_def emit_Int_def uint32_bytes_def)

lemma load_Inr_iff: "load h p = Inr d \<longleftrightarrow> (\<exists>a. p = Some a \<and> a < length h \<and> d = h ! a)"
  by (auto simp: load_def split: option.splits)

lemma load_append: "load h p = Inr d \<Longrightarrow> load (h @ ext) p = Inr d"
  by (auto simp: load_Inr_iff nth_append)

lemma build_method_Inr:
  assumes "build_method toID m s = Inr s'"
  shows "\<exists>a. HFSpecificMethodAndPrice.MD (HFSpecificMethodAndPrice m) = Some a \<and> a < length (descriptors s)
       \<and> s' = \<lparr> writer = writer s @ method_stub toID,
                descriptors = descriptors s @ [(descriptors s ! a)\<lparr> Offset := int (length (writer s)) \<rparr>],
                abiMethods = abiMethods s @ [(descriptors s ! a)\<lparr> Offset := int (length (writer s)) \<rparr>],
                methods = methods s @
                  [(HFSpecificMethodAndPrice m)\<lparr> HFSpecificMethodAndPrice.MD := Some (length (descriptors s)),
                       SyscallOffset := int (length (writer s)) + 2 \<rparr>] \<rparr>"
proof -
  from assms obtain md where ld: "load (descriptors s) (HFSpecificMethodAndPrice.MD (HFSpecificMethodAndPrice m)) = Inr md"
    by (auto simp: build_method_def split: sum.splits)
  then obtain a where a: "HFSpecificMethodAndPrice.MD (HFSpecificMethodAndPrice m) = Some a"
      "a < length (descriptors s)" "md = descriptors s ! a"
    by (auto simp: load_Inr_iff)
  have "s' = \<lparr> writer = writer s @ method_stub toID,
                descriptors = descriptors s @ [md\<lparr> Offset := int (length (writer s)) \<rparr>],
                abiMethods = abiMethods s @ [md\<lparr> Offset := int (length (writer s)) \<rparr>],
                methods = methods s @
                  [(HFSpecificMethodAndPrice m)\<lparr> HFSpecificMethodAndPrice.MD := Some (length (descriptors s)),
                       SyscallOffset := int (length (writer s)) + 2 \<rparr>] \<rparr>"
    using assms ld
    by (auto simp add: build_method_def new_def Let_def method_stub_def emit_Opcodes_def
        emit_Syscall_def emit_Int_def ac_simps)
  with a show ?thesis by blast
qed

lemma build_method_returns:
  assumes "HFSpecificMethodAndPrice.MD (HFSpecificMethodAndPrice m) = Some a" "a < length (descriptors s)"
  shows "\<exists>s'. build_method toID m s = Inr s'"
  using assms by (simp add: build_method_def load_def new_def Let_def)

lemma clones_append:
  "\<forall>m \<in> set ms. \<exists>a. HFSpecificMethodAndPrice.MD (HFSpecificMethodAndPrice m) = Some a \<and> a < length h \<Longrightarrow>
   clones (h @ ext) off ms = clones h off ms"
  by (induction ms arbitrary: off) (auto simp: nth_append)

lemma build_methods_kept_allocated:
  "build_methods toID hf ms s = Inr s' \<Longrightarrow>
   \<forall>m \<in> set ms. valid_pointer (descriptors s) (HFSpecificMethodAndPrice.MD (HFSpecificMethodAndPrice m)) \<Longrightarrow>
   \<forall>m \<in> set (kept hf ms). \<exists>a. HFSpecificMethodAndPrice.MD (HFSpecificMethodAndPrice m) = Some a \<and> a < length (descriptors s)"
proof (induction ms arbitrary: s)
  case Nil
  then show ?case by (simp add: kept_def)
next
  case (Cons m ms)
  show ?case
  proof (cases "included (MethodAndPrice.ActiveFrom m) hf")
    case False
    with Cons show ?thesis by (simp add: kept_def)
  next
    case True
    with Cons.prems(1) obtain s1 where s1: "build_method toID m s = Inr s1"
      and rest: "build_methods toID hf ms s1 = Inr s'"
      by (auto split: sum.splits)
    from build_method_Inr [OF s1] obtain a where a:
      "HFSpecificMethodAndPrice.MD (HFSpecificMethodAndPrice m) = Some a" "a < length (descriptors s)"
      and len: "length (descriptors s1) = Suc (length (descriptors s))"
      by auto
    have "\<forall>m \<in> set ms. valid_pointer (descriptors s1) (HFSpecificMethodAndPrice.MD (HFSpecificMethodAndPrice m))"
      using Cons.prems(2) len by (auto simp: valid_pointer_def split: option.splits)
    from Cons.IH [OF rest this] Cons.prems(2) a True show ?thesis
      by (auto simp: kept_def valid_pointer_def split: option.splits)
  qed
qed

lemma build_methods_closed:
  "build_methods toID hf ms s = Inr s' \<Longrightarrow>
   \<forall>m \<in> set ms. valid_pointer (descriptors s) (HFSpecificMethodAndPrice.MD (HFSpecificMethodAndPrice m)) \<Longrightarrow>
   s' = \<lparr> writer = writer s @ concat (replicate (length (kept hf ms)) (method_stub toID)),
          descriptors = descriptors s @ clones (descriptors s) (length (writer s)) (kept hf ms),
          abiMethods = abiMethods s @ clones (descriptors s) (length (writer s)) (kept hf ms),
          methods = methods s @ outputs (length (descriptors s)) (length (writer s)) (kept hf ms) \<rparr>"
proof (induction ms arbitrary: s)
  case Nil
  then show ?case by (simp add: kept_def)
next
  case (Cons m ms)
  show ?case
  proof (cases "included (MethodAndPrice.ActiveFrom m) hf")
    case False
    with Cons show ?thesis by (simp add: kept_def)
  next
    case True
    with Cons.prems(1) obtain s1 where s1: "build_method toID m s = Inr s1"
      and rest: "build_methods toID hf ms s1 = Inr s'"
      by (auto split: sum.splits)
    from build_method_Inr [OF s1] obtain a where a:
      "HFSpecificMethodAndPrice.MD (HFSpecificMethodAndPrice m) = Some a" "a < length (descriptors s)"
      and s1eq: "s1 = \<lparr> writer = writer s @ method_stub toID,
                descriptors = descriptors s @ [(descriptors s ! a)\<lparr> Offset := int (length (writer s)) \<rparr>],
                abiMethods = abiMethods s @ [(descriptors s ! a)\<lparr> Offset := int (length (writer s)) \<rparr>],
                methods = methods s @
                  [(HFSpecificMethodAndPrice m)\<lparr> HFSpecificMethodAndPrice.MD := Some (length (descriptors s)),
                       SyscallOffset := int (length (writer s)) + 2 \<rparr>] \<rparr>"
      by blast
    have v1: "\<forall>m \<in> set ms. valid_pointer (descriptors s1) (HFSpecificMethodAndPrice.MD (HFSpecificMethodAndPrice m))"
      using Cons.prems(2) s1eq by (auto simp: valid_pointer_def split: option.splits)
    have al: "\<forall>m \<in> set (kept hf ms). \<exists>a. HFSpecificMethodAndPrice.MD (HFSpecificMethodAndPrice m) = Some a \<and> a < length (descriptors s)"
    proof
      fix x assume x: "x \<in> set (kept hf ms)"
      with build_methods_kept_allocated [OF rest v1]
      obtain b where b: "HFSpecificMethodAndPrice.MD (HFSpecificMethodAndPrice x) = Some b" by blast
      from x have "x \<in> set ms" by (simp add: kept_def)
      with Cons.prems(2) b have "b < length (descriptors s)" by (auto simp: valid_pointer_def)
      with b show "\<exists>a. HFSpecificMethodAndPrice.MD (HFSpecificMethodAndPrice x) = Some a \<and> a < length (descriptors s)"
        by blast
    qed
    have cl: "clones (descriptors s1) off (kept hf ms) = clones (descriptors s) off (kept hf ms)" for off
      unfolding s1eq using clones_append [OF al] by simp
    have k: "kept hf (m # ms) = m # kept hf ms" using True by (simp add: kept_def)
    from Cons.IH [OF rest v1] show ?thesis
      unfolding k cl
      by (simp add: s1eq a length_method_stub add.commute)
  qed
qed

lemma length_clones: "length (clones h off ms) = length ms"
  by (induction ms arbitrary: off) simp_all

lemma length_outputs: "length (outputs a off ms) = length ms"
  by (induction ms arbitrary: a off) simp_all

lemma nth_clones:
  "j < length ms \<Longrightarrow>
   clones h off ms ! j
     = (h ! the (HFSpecificMethodAndPrice.MD (HFSpecificMethodAndPrice (ms ! j))))\<lparr> Offset := int off + 8 * int j \<rparr>"
proof (induction ms arbitrary: off j)
  case Nil
  then show ?case by simp
next
  case (Cons m ms)
  show ?case
  proof (cases j)
    case 0
    then show ?thesis by simp
  next
    case (Suc i)
    with Cons.prems have "i < length ms" by simp
    from Cons.IH [OF this, of "off + 8"] Suc show ?thesis by (simp add: algebra_simps)
  qed
qed

lemma nth_outputs:
  "j < length ms \<Longrightarrow>
   outputs a off ms ! j
     = (HFSpecificMethodAndPrice (ms ! j))
         \<lparr> HFSpecificMethodAndPrice.MD := Some (a + j), SyscallOffset := int off + 8 * int j + 2 \<rparr>"
proof (induction ms arbitrary: a off j)
  case Nil
  then show ?case by simp
next
  case (Cons m ms)
  show ?case
  proof (cases j)
    case 0
    then show ?thesis by simp
  next
    case (Suc i)
    with Cons.prems have "i < length ms" by simp
    from Cons.IH [OF this, of "Suc a" "off + 8"] Suc show ?thesis by (simp add: algebra_simps)
  qed
qed

lemma drop_concat_replicate:
  "j \<le> n \<Longrightarrow> drop (length xs * j) (concat (replicate n xs)) = concat (replicate (n - j) xs)"
proof (induction j arbitrary: n)
  case 0
  then show ?case by simp
next
  case (Suc j)
  then obtain k where k: "n = Suc k" by (cases n) auto
  with Suc.prems have "j \<le> k" by simp
  from Suc.IH [OF this] k show ?case by (simp add: drop_drop [symmetric] add.commute del: drop_drop)
qed

lemma stub_at:
  assumes "j < n"
  shows "take 8 (drop (8 * j) (concat (replicate n (method_stub toID)))) = method_stub toID"
proof -
  from assms obtain k where k: "n - j = Suc k" by (cases "n - j") auto
  from assms have "j \<le> n" by simp
  from drop_concat_replicate [OF this, of "method_stub toID"] k
  show ?thesis by (simp add: length_method_stub)
qed

lemma build_methods_prefix:
  "build_methods toID hf ms s = Inr s' \<Longrightarrow> \<exists>ext. descriptors s' = descriptors s @ ext"
proof (induction ms arbitrary: s)
  case Nil
  then show ?case by simp
next
  case (Cons m ms)
  show ?case
  proof (cases "included (MethodAndPrice.ActiveFrom m) hf")
    case False
    with Cons show ?thesis by simp
  next
    case True
    with Cons.prems obtain s1 where s1: "build_method toID m s = Inr s1"
      and rest: "build_methods toID hf ms s1 = Inr s'"
      by (auto split: sum.splits)
    from build_method_Inr [OF s1] obtain x where "descriptors s1 = descriptors s @ [x]"
      by auto
    with Cons.IH [OF rest] show ?thesis by auto
  qed
qed

lemma build_methods_returns:
  "\<forall>m \<in> set (kept hf ms). \<exists>a. HFSpecificMethodAndPrice.MD (HFSpecificMethodAndPrice m) = Some a \<and> a < length (descriptors s) \<Longrightarrow>
   \<exists>s'. build_methods toID hf ms s = Inr s'"
proof (induction ms arbitrary: s)
  case Nil
  then show ?case by simp
next
  case (Cons m ms)
  show ?case
  proof (cases "included (MethodAndPrice.ActiveFrom m) hf")
    case False
    with Cons show ?thesis by (simp add: kept_def)
  next
    case True
    with Cons.prems obtain a where a: "HFSpecificMethodAndPrice.MD (HFSpecificMethodAndPrice m) = Some a"
        "a < length (descriptors s)"
      by (auto simp: kept_def)
    from build_method_returns [OF a] obtain s1 where s1: "build_method toID m s = Inr s1" by blast
    from build_method_Inr [OF s1] have len: "length (descriptors s1) = Suc (length (descriptors s))" by auto
    have "\<forall>m \<in> set (kept hf ms). \<exists>a. HFSpecificMethodAndPrice.MD (HFSpecificMethodAndPrice m) = Some a \<and> a < length (descriptors s1)"
      using Cons.prems True len by (auto simp: kept_def less_Suc_eq)
    from Cons.IH [OF this] obtain s' where "build_methods toID hf ms s1 = Inr s'" by blast
    with True s1 show ?thesis by simp
  qed
qed

lemma build_events_closed:
  "build_events hf es acc = Inr (abiEvents, events) \<Longrightarrow>
   events = snd acc @ map HFSpecificEvent (kept_events hf es)
   \<and> abiEvents = fst acc @ map (\<lambda>e. the (HFSpecificEvent.MD (HFSpecificEvent e))) (kept_events hf es)"
proof (induction hf es acc rule: build_events.induct)
  case (1 hf acc)
  then show ?case by (simp add: kept_events_def)
next
  case (2 hf e es abi evs)
  show ?case
  proof (cases "included (Event.ActiveFrom e) hf")
    case False
    with 2 show ?thesis by (simp add: kept_events_def)
  next
    case True
    with "2.prems" obtain d where d: "HFSpecificEvent.MD (HFSpecificEvent e) = Some d"
      and rest: "build_events hf es (abi @ [d], evs @ [HFSpecificEvent e]) = Inr (abiEvents, events)"
      by (auto split: option.splits)
    from "2.IH"(2) [OF _ d rest] True d show ?thesis by (simp add: kept_events_def)
  qed
qed

lemma build_events_returns:
  "\<forall>e \<in> set (kept_events hf es). HFSpecificEvent.MD (HFSpecificEvent e) \<noteq> None \<Longrightarrow>
   \<exists>r. build_events hf es acc = Inr r"
proof (induction hf es acc rule: build_events.induct)
  case (1 hf acc)
  then show ?case by simp
next
  case (2 hf e es abi evs)
  show ?case
  proof (cases "included (Event.ActiveFrom e) hf")
    case False
    with 2 show ?thesis by (simp add: kept_events_def)
  next
    case True
    with "2.prems" obtain d where d: "HFSpecificEvent.MD (HFSpecificEvent e) = Some d"
      by (auto simp: kept_events_def)
    from "2.IH"(2) [OF _ d] "2.prems" True d show ?thesis by (simp add: kept_events_def)
  qed
qed

lemma buildHFSpecificMD_Inr:
  assumes "buildHFSpecificMD toID h c hf = Inr (h', c', md)"
  shows "\<exists>s abiEvents events.
           build_methods toID hf (ContractMD.Methods c)
             \<lparr> writer = [], descriptors = h, abiMethods = [], methods = [] \<rparr> = Inr s
         \<and> build_events hf (ContractMD.Events c) ([], []) = Inr (abiEvents, events)
         \<and> h' = descriptors s
         \<and> c' = c\<lparr> mdCache := (mdCache c)((case hf of None \<Rightarrow> 0 | Some k \<Rightarrow> k) \<mapsto> md) \<rparr>
         \<and> HFSpecificContractMD.Methods md = methods s
         \<and> HFSpecificContractMD.Events md = events
         \<and> Script (NEF (ContractBase md)) = writer s
         \<and> state_ContractBase.ID (ContractBase md) = ContractMD.ID c
         \<and> state_ContractBase.Hash (ContractBase md) = ContractMD.Hash c"
  using assms
  by (auto simp: buildHFSpecificMD_def Let_def split: sum.splits prod.splits)

lemma buildHFSpecificMD_closed:
  assumes res: "buildHFSpecificMD toID h c hf = Inr (h', c', md)"
      and val: "\<forall>m \<in> set (ContractMD.Methods c). valid_pointer h (HFSpecificMethodAndPrice.MD (HFSpecificMethodAndPrice m))"
  shows "h' = h @ clones h 0 (kept hf (ContractMD.Methods c))"
    and "HFSpecificContractMD.Methods md = outputs (length h) 0 (kept hf (ContractMD.Methods c))"
    and "Script (NEF (ContractBase md))
           = concat (replicate (length (kept hf (ContractMD.Methods c))) (method_stub toID))"
    and "HFSpecificContractMD.Events md = map HFSpecificEvent (kept_events hf (ContractMD.Events c))"
proof -
  from buildHFSpecificMD_Inr [OF res] obtain s abiEvents events where
    bm: "build_methods toID hf (ContractMD.Methods c)
             \<lparr> writer = [], descriptors = h, abiMethods = [], methods = [] \<rparr> = Inr s"
    and be: "build_events hf (ContractMD.Events c) ([], []) = Inr (abiEvents, events)"
    and eqs: "h' = descriptors s" "HFSpecificContractMD.Methods md = methods s"
      "HFSpecificContractMD.Events md = events" "Script (NEF (ContractBase md)) = writer s"
    by blast
  from build_methods_closed [OF bm] val
  have s: "s = \<lparr> writer = concat (replicate (length (kept hf (ContractMD.Methods c))) (method_stub toID)),
          descriptors = h @ clones h 0 (kept hf (ContractMD.Methods c)),
          abiMethods = clones h 0 (kept hf (ContractMD.Methods c)),
          methods = outputs (length h) 0 (kept hf (ContractMD.Methods c)) \<rparr>"
    by simp
  show "h' = h @ clones h 0 (kept hf (ContractMD.Methods c))"
    and "HFSpecificContractMD.Methods md = outputs (length h) 0 (kept hf (ContractMD.Methods c))"
    and "Script (NEF (ContractBase md))
           = concat (replicate (length (kept hf (ContractMD.Methods c))) (method_stub toID))"
    using eqs by (simp_all add: s)
  from build_events_closed [OF be] eqs
  show "HFSpecificContractMD.Events md = map HFSpecificEvent (kept_events hf (ContractMD.Events c))"
    by simp
qed

lemma buildHFSpecificMD_returns:
  assumes "\<forall>m \<in> set (kept hf (ContractMD.Methods c)).
             \<exists>a. HFSpecificMethodAndPrice.MD (HFSpecificMethodAndPrice m) = Some a \<and> a < length h"
      and "\<forall>e \<in> set (kept_events hf (ContractMD.Events c)). HFSpecificEvent.MD (HFSpecificEvent e) \<noteq> None"
  shows "\<exists>h' c' md. buildHFSpecificMD toID h c hf = Inr (h', c', md)"
proof -
  from build_methods_returns [of hf "ContractMD.Methods c" "\<lparr> writer = [], descriptors = h, abiMethods = [], methods = [] \<rparr>" toID] assms(1)
  obtain s where s: "build_methods toID hf (ContractMD.Methods c)
             \<lparr> writer = [], descriptors = h, abiMethods = [], methods = [] \<rparr> = Inr s"
    by auto
  from build_events_returns [OF assms(2), of "([], [])"]
  obtain r where r: "build_events hf (ContractMD.Events c) ([], []) = Inr r" by blast
  show ?thesis
    by (cases r) (simp add: buildHFSpecificMD_def s r Let_def)
qed

lemma included_simps:
  "included None hf = True"
  "included (Some a) None = False"
  "included (Some a) (Some k) = (k \<le> a)"
  by (auto simp: included_def Cmp_def)

lemma kept_hf_contract:
  "kept None (ContractMD.Methods hf_contract) = [method_decl 1 (Some 0) None]"
  "kept (Some 1) (ContractMD.Methods hf_contract)
     = [method_decl 1 (Some 0) None, method_decl 2 (Some 1) (Some 1), method_decl 3 (Some 2) (Some 2)]"
  "kept (Some 2) (ContractMD.Methods hf_contract)
     = [method_decl 1 (Some 0) None, method_decl 3 (Some 2) (Some 2)]"
  by (simp_all add: kept_def hf_contract_def method_decl_def included_simps)

lemma kept_events_hf_contract:
  "kept_events None (ContractMD.Events hf_contract) = [event_decl ''e1'' None]"
  "kept_events (Some 1) (ContractMD.Events hf_contract)
     = [event_decl ''e1'' None, event_decl ''e2'' (Some 1), event_decl ''e3'' (Some 2)]"
  "kept_events (Some 2) (ContractMD.Events hf_contract)
     = [event_decl ''e1'' None, event_decl ''e3'' (Some 2)]"
  by (simp_all add: kept_events_def hf_contract_def event_decl_def included_simps)

lemma hf_contract_valid:
  "\<forall>m \<in> set (ContractMD.Methods hf_contract).
     valid_pointer hf_heap (HFSpecificMethodAndPrice.MD (HFSpecificMethodAndPrice m))"
  by (simp add: hf_contract_def hf_heap_def method_decl_def valid_pointer_def)

lemma hf_contract_returns:
  "\<exists>h' c' md. buildHFSpecificMD toID hf_heap hf_contract hf = Inr (h', c', md)"
proof (rule buildHFSpecificMD_returns)
  show "\<forall>m\<in>set (kept hf (ContractMD.Methods hf_contract)).
       \<exists>a. HFSpecificMethodAndPrice.MD (HFSpecificMethodAndPrice m) = Some a \<and> a < length hf_heap"
    by (simp add: kept_def hf_contract_def hf_heap_def method_decl_def)
  show "\<forall>e\<in>set (kept_events hf (ContractMD.Events hf_contract)).
       HFSpecificEvent.MD (HFSpecificEvent e) \<noteq> None"
    by (simp add: kept_events_def hf_contract_def event_decl_def)
qed

text \<open>
  C2. In a descriptor built from a contract whose descriptor pointers are valid, the
  method at index \<open>j\<close> of the table points to a descriptor whose offset is \<open>8 * j\<close>, its
  syscall offset is \<open>8 * j + 2\<close>, that is, the offset is the syscall offset minus 2; the
  script holds the two bytes of \<open>PUSHINT8 0\<close> at the offset, the five bytes of the
  \<open>SYSCALL\<close> of \<open>System.Contract.CallNative\<close> at the syscall offset and \<open>RET\<close> right after
  them, and it is 8 bytes long for each method of the table.
\<close>

theorem stub_layout:
  assumes res: "buildHFSpecificMD toID h c hf = Inr (h', c', md)"
      and val: "\<forall>m \<in> set (ContractMD.Methods c).
                  valid_pointer h (HFSpecificMethodAndPrice.MD (HFSpecificMethodAndPrice m))"
      and j: "j < length (HFSpecificContractMD.Methods md)"
  shows "\<exists>d. load h' (HFSpecificMethodAndPrice.MD (HFSpecificContractMD.Methods md ! j)) = Inr d
      \<and> Offset d = 8 * int j
      \<and> SyscallOffset (HFSpecificContractMD.Methods md ! j) = 8 * int j + 2
      \<and> Offset d = SyscallOffset (HFSpecificContractMD.Methods md ! j) - 2
      \<and> take 2 (drop (nat (Offset d)) (Script (NEF (ContractBase md)))) = emit_Int [] 0
      \<and> take 5 (drop (nat (SyscallOffset (HFSpecificContractMD.Methods md ! j))) (Script (NEF (ContractBase md))))
          = emit_Syscall toID [] SystemContractCallNative
      \<and> take 1 (drop (nat (SyscallOffset (HFSpecificContractMD.Methods md ! j)) + 5) (Script (NEF (ContractBase md))))
          = emit_Opcodes [] [opcode_RET]
      \<and> length (Script (NEF (ContractBase md))) = 8 * length (HFSpecificContractMD.Methods md)"
proof -
  let ?act = "kept hf (ContractMD.Methods c)"
  let ?script = "Script (NEF (ContractBase md))"
  let ?m = "HFSpecificContractMD.Methods md ! j"
  note cf = buildHFSpecificMD_closed [OF res val]
  have n: "length (HFSpecificContractMD.Methods md) = length ?act"
    by (simp add: cf(2) length_outputs)
  with j have ja: "j < length ?act" by simp
  have m: "?m = (HFSpecificMethodAndPrice (?act ! j))
         \<lparr> HFSpecificMethodAndPrice.MD := Some (length h + j), SyscallOffset := 8 * int j + 2 \<rparr>"
    using nth_outputs [OF ja, of "length h" 0] by (simp add: cf(2))
  have cell: "h' ! (length h + j)
      = (h ! the (HFSpecificMethodAndPrice.MD (HFSpecificMethodAndPrice (?act ! j))))\<lparr> Offset := 8 * int j \<rparr>"
    using nth_clones [OF ja, of h 0] by (simp add: cf(1))
  have alloc: "length h + j < length h'"
    using ja by (simp add: cf(1) length_clones)
  let ?d = "h' ! (length h + j)"
  have ld: "load h' (HFSpecificMethodAndPrice.MD ?m) = Inr ?d"
    using alloc by (simp add: m load_def)
  have off: "Offset ?d = 8 * int j" by (simp add: cell)
  have so: "SyscallOffset ?m = 8 * int j + 2" by (simp add: m)
  have st: "take 8 (drop (8 * j) ?script) = method_stub toID"
    using stub_at [OF ja] by (simp add: cf(3))
  have natoff: "nat (Offset ?d) = 8 * j" "nat (SyscallOffset ?m) = 8 * j + 2"
    by (simp_all add: off so nat_add_distrib nat_mult_distrib)
  have p1: "take 2 (drop (8 * j) ?script) = take 2 (take 8 (drop (8 * j) ?script))"
    by simp
  have p2: "take 5 (drop (8 * j + 2) ?script) = take 5 (drop 2 (take 8 (drop (8 * j) ?script)))"
    by (simp add: drop_take add.commute)
  have p3: "take 1 (drop (8 * j + 2 + 5) ?script) = take 1 (drop 7 (take 8 (drop (8 * j) ?script)))"
    by (simp add: drop_take add.commute)
  have s1: "take 2 (drop (nat (Offset ?d)) ?script) = emit_Int [] 0"
    unfolding natoff p1 st
    by (simp add: method_stub_def emit_Opcodes_def emit_Syscall_def emit_Int_def)
  have s2: "take 5 (drop (nat (SyscallOffset ?m)) ?script) = emit_Syscall toID [] SystemContractCallNative"
    unfolding natoff p2 st
    by (simp add: method_stub_def emit_Opcodes_def emit_Syscall_def emit_Int_def uint32_bytes_def)
  have s3: "take 1 (drop (nat (SyscallOffset ?m) + 5) ?script) = emit_Opcodes [] [opcode_RET]"
    unfolding natoff p3 st
    by (simp add: method_stub_def emit_Opcodes_def emit_Syscall_def emit_Int_def uint32_bytes_def)
  have len: "length ?script = 8 * length (HFSpecificContractMD.Methods md)"
    by (simp add: cf(3) n length_concat length_method_stub sum_list_replicate)
  from ld off so s1 s2 s3 len show ?thesis by simp
qed

text \<open>
  C9. Building a descriptor changes the contract in its cache only: the method
  declarations are the same list, every allocated cell of the store keeps its content,
  so every declaration reads the same descriptor as before. The store grows by one
  cell for each method of the built table: the method at index \<open>j\<close> points to the new
  cell \<open>length h + j\<close>, which holds the descriptor of the \<open>j\<close>-th kept declaration with
  the offset set (when the contract's descriptor pointers are valid in the store).
\<close>

theorem materialise_frame:
  assumes res: "buildHFSpecificMD toID h c hf = Inr (h', c', md)"
  shows "c' = c\<lparr> mdCache := (mdCache c)((case hf of None \<Rightarrow> 0 | Some k \<Rightarrow> k) \<mapsto> md) \<rparr>
       \<and> ContractMD.Methods c' = ContractMD.Methods c
       \<and> take (length h) h' = h
       \<and> (\<forall>m \<in> set (ContractMD.Methods c). \<forall>d.
            load h (HFSpecificMethodAndPrice.MD (HFSpecificMethodAndPrice m)) = Inr d \<longrightarrow>
            load h' (HFSpecificMethodAndPrice.MD (HFSpecificMethodAndPrice m)) = Inr d)
       \<and> ((\<forall>m \<in> set (ContractMD.Methods c).
              valid_pointer h (HFSpecificMethodAndPrice.MD (HFSpecificMethodAndPrice m))) \<longrightarrow>
            length h' = length h + length (HFSpecificContractMD.Methods md)
          \<and> (\<forall>j < length (HFSpecificContractMD.Methods md). \<exists>a.
                HFSpecificMethodAndPrice.MD (HFSpecificMethodAndPrice (kept hf (ContractMD.Methods c) ! j)) = Some a
              \<and> a < length h
              \<and> HFSpecificMethodAndPrice.MD (HFSpecificContractMD.Methods md ! j) = Some (length h + j)
              \<and> h' ! (length h + j) = (h ! a)\<lparr> Offset := 8 * int j \<rparr>))"
proof -
  from buildHFSpecificMD_Inr [OF res] obtain s where
    bm: "build_methods toID hf (ContractMD.Methods c)
             \<lparr> writer = [], descriptors = h, abiMethods = [], methods = [] \<rparr> = Inr s"
    and h': "h' = descriptors s"
    and c': "c' = c\<lparr> mdCache := (mdCache c)((case hf of None \<Rightarrow> 0 | Some k \<Rightarrow> k) \<mapsto> md) \<rparr>"
    by blast
  from build_methods_prefix [OF bm] h' obtain ext where ext: "h' = h @ ext" by auto
  have ms: "ContractMD.Methods c' = ContractMD.Methods c" by (simp add: c')
  have pre: "take (length h) h' = h" by (simp add: ext)
  have keep: "\<forall>m \<in> set (ContractMD.Methods c). \<forall>d.
            load h (HFSpecificMethodAndPrice.MD (HFSpecificMethodAndPrice m)) = Inr d \<longrightarrow>
            load h' (HFSpecificMethodAndPrice.MD (HFSpecificMethodAndPrice m)) = Inr d"
    unfolding ext using load_append by blast
  have clone: "length h' = length h + length (HFSpecificContractMD.Methods md)
          \<and> (\<forall>j < length (HFSpecificContractMD.Methods md). \<exists>a.
                HFSpecificMethodAndPrice.MD (HFSpecificMethodAndPrice (kept hf (ContractMD.Methods c) ! j)) = Some a
              \<and> a < length h
              \<and> HFSpecificMethodAndPrice.MD (HFSpecificContractMD.Methods md ! j) = Some (length h + j)
              \<and> h' ! (length h + j) = (h ! a)\<lparr> Offset := 8 * int j \<rparr>)"
    if val: "\<forall>m \<in> set (ContractMD.Methods c).
              valid_pointer h (HFSpecificMethodAndPrice.MD (HFSpecificMethodAndPrice m))"
  proof -
    let ?act = "kept hf (ContractMD.Methods c)"
    note cf = buildHFSpecificMD_closed [OF res val]
    have n: "length (HFSpecificContractMD.Methods md) = length ?act"
      by (simp add: cf(2) length_outputs)
    have al: "\<forall>m \<in> set ?act. \<exists>a. HFSpecificMethodAndPrice.MD (HFSpecificMethodAndPrice m) = Some a \<and> a < length h"
      using build_methods_kept_allocated [OF bm] val by simp
    have "\<exists>a. HFSpecificMethodAndPrice.MD (HFSpecificMethodAndPrice (?act ! j)) = Some a
              \<and> a < length h
              \<and> HFSpecificMethodAndPrice.MD (HFSpecificContractMD.Methods md ! j) = Some (length h + j)
              \<and> h' ! (length h + j) = (h ! a)\<lparr> Offset := 8 * int j \<rparr>"
      if j: "j < length (HFSpecificContractMD.Methods md)" for j
    proof -
      from j n have ja: "j < length ?act" by simp
      then have "?act ! j \<in> set ?act" by simp
      with al obtain a where a: "HFSpecificMethodAndPrice.MD (HFSpecificMethodAndPrice (?act ! j)) = Some a"
          "a < length h"
        by blast
      have "HFSpecificMethodAndPrice.MD (HFSpecificContractMD.Methods md ! j) = Some (length h + j)"
        using nth_outputs [OF ja, of "length h" 0] by (simp add: cf(2))
      moreover have "h' ! (length h + j) = (h ! a)\<lparr> Offset := 8 * int j \<rparr>"
        using nth_clones [OF ja, of h 0] a by (simp add: cf(1))
      ultimately show ?thesis using a by blast
    qed
    moreover have "length h' = length h + length (HFSpecificContractMD.Methods md)"
      by (simp add: cf(1) n length_clones)
    ultimately show ?thesis by blast
  qed
  from c' ms pre keep clone show ?thesis by blast
qed

lemma hf_names_default:
  assumes res: "buildHFSpecificMD toID hf_heap hf_contract None = Inr (h', c', md)"
  shows "method_names h' (HFSpecificContractMD.Methods md) = [''m1'']
       \<and> event_names (HFSpecificContractMD.Events md) = [''e1'']"
  unfolding buildHFSpecificMD_closed [OF res hf_contract_valid] kept_hf_contract kept_events_hf_contract
  by (simp add: method_names_def event_names_def hf_heap_def method_decl_def method_desc_def
      event_decl_def load_def)

lemma hf_names_first:
  assumes res: "buildHFSpecificMD toID hf_heap hf_contract (Some 1) = Inr (h', c', md)"
  shows "method_names h' (HFSpecificContractMD.Methods md) = [''m1'', ''m2'', ''m3'']
       \<and> event_names (HFSpecificContractMD.Events md) = [''e1'', ''e2'', ''e3'']"
  unfolding buildHFSpecificMD_closed [OF res hf_contract_valid] kept_hf_contract kept_events_hf_contract
  by (simp add: method_names_def event_names_def hf_heap_def method_decl_def method_desc_def
      event_decl_def load_def)

lemma hf_names_second:
  assumes res: "buildHFSpecificMD toID hf_heap hf_contract (Some 2) = Inr (h', c', md)"
  shows "method_names h' (HFSpecificContractMD.Methods md) = [''m1'', ''m3'']
       \<and> event_names (HFSpecificContractMD.Events md) = [''e1'', ''e3'']"
  unfolding buildHFSpecificMD_closed [OF res hf_contract_valid] kept_hf_contract kept_events_hf_contract
  by (simp add: method_names_def event_names_def hf_heap_def method_decl_def method_desc_def
      event_decl_def load_def)

text \<open>
  C1. The claim says that a method is kept iff its activation hardfork is unset, or the
  key is set and the activation hardfork is at most the key. The loop keeps a
  declaration when \<open>Cmp\<close> of its activation hardfork and the key is at least 0, that is,
  when the activation hardfork is at least the key (\<open>included_simps\<close>). For the contract
  of the scenario, with hardforks 1 and 2: without a key the table is \<open>m1\<close>; with key 1 it
  is \<open>m1\<close>, \<open>m2\<close>, \<open>m3\<close>, where the claim says \<open>m1\<close>, \<open>m2\<close>; with key 2 it is \<open>m1\<close>, \<open>m3\<close>, where
  the claim says \<open>m1\<close>, \<open>m2\<close>, \<open>m3\<close>. The events are filtered by the same test.
\<close>

theorem hardfork_filter_reversed:
  "(\<exists>h' c' md. buildHFSpecificMD example_toID hf_heap hf_contract None = Inr (h', c', md)
       \<and> method_names h' (HFSpecificContractMD.Methods md) = [''m1'']
       \<and> event_names (HFSpecificContractMD.Events md) = [''e1''])
 \<and> (\<exists>h' c' md. buildHFSpecificMD example_toID hf_heap hf_contract (Some 1) = Inr (h', c', md)
       \<and> method_names h' (HFSpecificContractMD.Methods md) = [''m1'', ''m2'', ''m3'']
       \<and> event_names (HFSpecificContractMD.Events md) = [''e1'', ''e2'', ''e3''])
 \<and> (\<exists>h' c' md. buildHFSpecificMD example_toID hf_heap hf_contract (Some 2) = Inr (h', c', md)
       \<and> method_names h' (HFSpecificContractMD.Methods md) = [''m1'', ''m3'']
       \<and> event_names (HFSpecificContractMD.Events md) = [''e1'', ''e3''])"
proof (intro conjI)
  show "\<exists>h' c' md. buildHFSpecificMD example_toID hf_heap hf_contract None = Inr (h', c', md)
       \<and> method_names h' (HFSpecificContractMD.Methods md) = [''m1'']
       \<and> event_names (HFSpecificContractMD.Events md) = [''e1'']"
    using hf_contract_returns [of example_toID None] hf_names_default by blast
  show "\<exists>h' c' md. buildHFSpecificMD example_toID hf_heap hf_contract (Some 1) = Inr (h', c', md)
       \<and> method_names h' (HFSpecificContractMD.Methods md) = [''m1'', ''m2'', ''m3'']
       \<and> event_names (HFSpecificContractMD.Events md) = [''e1'', ''e2'', ''e3'']"
    using hf_contract_returns [of example_toID "Some 1"] hf_names_first by blast
  show "\<exists>h' c' md. buildHFSpecificMD example_toID hf_heap hf_contract (Some 2) = Inr (h', c', md)
       \<and> method_names h' (HFSpecificContractMD.Methods md) = [''m1'', ''m3'']
       \<and> event_names (HFSpecificContractMD.Events md) = [''e1'', ''e3'']"
    using hf_contract_returns [of example_toID "Some 2"] hf_names_second by blast
qed

text \<open>
  C5. The claim says that the members at a hardfork are among the members at every
  later hardfork. In the contract of the scenario, \<open>m2\<close> and \<open>e2\<close> are members at
  hardfork 1 and are not members at the later hardfork 2.
\<close>

theorem later_hardfork_drops_members:
  "\<exists>h1 c1 md1 h2 c2 md2.
      buildHFSpecificMD example_toID hf_heap hf_contract (Some 1) = Inr (h1, c1, md1)
    \<and> buildHFSpecificMD example_toID hf_heap hf_contract (Some 2) = Inr (h2, c2, md2)
    \<and> ''m2'' \<in> set (method_names h1 (HFSpecificContractMD.Methods md1))
    \<and> ''m2'' \<notin> set (method_names h2 (HFSpecificContractMD.Methods md2))
    \<and> ''e2'' \<in> set (event_names (HFSpecificContractMD.Events md1))
    \<and> ''e2'' \<notin> set (event_names (HFSpecificContractMD.Events md2))"
proof -
  from hf_contract_returns [of example_toID "Some 1"] obtain h1 c1 md1 where
    r1: "buildHFSpecificMD example_toID hf_heap hf_contract (Some 1) = Inr (h1, c1, md1)" by blast
  from hf_contract_returns [of example_toID "Some 2"] obtain h2 c2 md2 where
    r2: "buildHFSpecificMD example_toID hf_heap hf_contract (Some 2) = Inr (h2, c2, md2)" by blast
  from hf_names_first [OF r1] hf_names_second [OF r2] r1 r2
  show ?thesis by (intro exI [of _ h1] exI [of _ c1] exI [of _ md1] exI [of _ h2] exI [of _ c2] exI [of _ md2]) simp
qed

text \<open>
  The stub of the second method of the scenario's contract at hardfork 1: bytes 8 to 15
  of a script of 24 bytes.
\<close>

theorem stub_layout_witness:
  "\<exists>h' c' md. buildHFSpecificMD example_toID hf_heap hf_contract (Some 1) = Inr (h', c', md)
     \<and> length (HFSpecificContractMD.Methods md) = 3
     \<and> (\<exists>d. load h' (HFSpecificMethodAndPrice.MD (HFSpecificContractMD.Methods md ! 1)) = Inr d
            \<and> Offset d = 8)
     \<and> SyscallOffset (HFSpecificContractMD.Methods md ! 1) = 10
     \<and> take 2 (drop 8 (Script (NEF (ContractBase md)))) = [0, 0]
     \<and> take 5 (drop 10 (Script (NEF (ContractBase md)))) = [0x41, 0x1a, 0xf7, 0x7b, 0x67]
     \<and> take 1 (drop 15 (Script (NEF (ContractBase md)))) = [0x40]
     \<and> length (Script (NEF (ContractBase md))) = 24"
proof -
  from hf_contract_returns [of example_toID "Some 1"] obtain h' c' md where
    res: "buildHFSpecificMD example_toID hf_heap hf_contract (Some 1) = Inr (h', c', md)" by blast
  have n: "length (HFSpecificContractMD.Methods md) = 3"
    unfolding buildHFSpecificMD_closed(2) [OF res hf_contract_valid] kept_hf_contract
    by (simp add: length_outputs)
  then have j: "1 < length (HFSpecificContractMD.Methods md)" by simp
  have ids: "uint32_bytes (example_toID SystemContractCallNative) = [0x1a, 0xf7, 0x7b, 0x67]"
    by (simp add: uint32_bytes_def example_toID_def drop_bit_eq_div)
  from stub_layout [OF res hf_contract_valid j] obtain d where
    d: "load h' (HFSpecificMethodAndPrice.MD (HFSpecificContractMD.Methods md ! 1)) = Inr d"
       "Offset d = 8" "SyscallOffset (HFSpecificContractMD.Methods md ! 1) = 10"
       "take 2 (drop (nat (Offset d)) (Script (NEF (ContractBase md)))) = emit_Int [] 0"
       "take 5 (drop (nat (SyscallOffset (HFSpecificContractMD.Methods md ! 1))) (Script (NEF (ContractBase md))))
          = emit_Syscall example_toID [] SystemContractCallNative"
       "take 1 (drop (nat (SyscallOffset (HFSpecificContractMD.Methods md ! 1)) + 5) (Script (NEF (ContractBase md))))
          = emit_Opcodes [] [opcode_RET]"
       "length (Script (NEF (ContractBase md))) = 8 * length (HFSpecificContractMD.Methods md)"
    by auto
  from d(4) d(2) have a: "take 2 (drop 8 (Script (NEF (ContractBase md)))) = [0, 0]"
    by (simp add: emit_Int_def opcode_PUSHINT8_def)
  from d(5) d(3) have b: "take 5 (drop 10 (Script (NEF (ContractBase md)))) = [0x41, 0x1a, 0xf7, 0x7b, 0x67]"
    by (simp add: emit_Syscall_def opcode_SYSCALL_def ids)
  from d(6) d(3) have c: "take 1 (drop 15 (Script (NEF (ContractBase md)))) = [0x40]"
    by (simp add: emit_Opcodes_def opcode_RET_def)
  from d(7) n have l: "length (Script (NEF (ContractBase md))) = 24" by simp
  from res n d(1,2,3) a b c l show ?thesis by blast
qed

text \<open>
  The store of the scenario has three descriptors. After the build at hardfork 1 they
  are unchanged, the store has six cells, and the second method points to cell 4, the
  copy of the descriptor of \<open>m2\<close> with offset 8.
\<close>

theorem materialise_frame_witness:
  "\<exists>h' c' md. buildHFSpecificMD example_toID hf_heap hf_contract (Some 1) = Inr (h', c', md)
     \<and> ContractMD.Methods c' = ContractMD.Methods hf_contract
     \<and> take 3 h' = hf_heap
     \<and> load h' (Some 1) = Inr (method_desc ''m2'' 0)
     \<and> length h' = 6
     \<and> HFSpecificMethodAndPrice.MD (HFSpecificContractMD.Methods md ! 1) = Some 4
     \<and> h' ! 4 = (method_desc ''m2'' 0)\<lparr> Offset := 8 \<rparr>"
proof -
  from hf_contract_returns [of example_toID "Some 1"] obtain h' c' md where
    res: "buildHFSpecificMD example_toID hf_heap hf_contract (Some 1) = Inr (h', c', md)" by blast
  have n: "length (HFSpecificContractMD.Methods md) = 3"
    unfolding buildHFSpecificMD_closed(2) [OF res hf_contract_valid] kept_hf_contract
    by (simp add: length_outputs)
  have mem: "method_decl 2 (Some 1) (Some 1) \<in> set (ContractMD.Methods hf_contract)"
    by (simp add: hf_contract_def)
  have ld: "load hf_heap (HFSpecificMethodAndPrice.MD (HFSpecificMethodAndPrice (method_decl 2 (Some 1) (Some 1))))
              = Inr (method_desc ''m2'' 0)"
    by (simp add: load_def hf_heap_def method_decl_def)
  have k: "HFSpecificMethodAndPrice.MD (HFSpecificMethodAndPrice (kept (Some 1) (ContractMD.Methods hf_contract) ! 1)) = Some 1"
    unfolding kept_hf_contract by (simp add: method_decl_def)
  have len: "length hf_heap = 3" and c1: "hf_heap ! 1 = method_desc ''m2'' 0" by (simp_all add: hf_heap_def)
  note fr = materialise_frame [OF res]
  from fr have a: "ContractMD.Methods c' = ContractMD.Methods hf_contract" by blast
  from fr len have b: "take 3 h' = hf_heap" by simp
  from fr mem ld have c: "load h' (Some 1) = Inr (method_desc ''m2'' 0)"
    by (auto simp: method_decl_def)
  from fr hf_contract_valid n len have d: "length h' = 6" by simp
  have j: "1 < length (HFSpecificContractMD.Methods md)" using n by simp
  from fr hf_contract_valid have every:
    "\<forall>j < length (HFSpecificContractMD.Methods md). \<exists>a.
        HFSpecificMethodAndPrice.MD (HFSpecificMethodAndPrice (kept (Some 1) (ContractMD.Methods hf_contract) ! j)) = Some a
      \<and> a < length hf_heap
      \<and> HFSpecificMethodAndPrice.MD (HFSpecificContractMD.Methods md ! j) = Some (length hf_heap + j)
      \<and> h' ! (length hf_heap + j) = (hf_heap ! a)\<lparr> Offset := 8 * int j \<rparr>"
    by blast
  from every j obtain a where a':
      "HFSpecificMethodAndPrice.MD (HFSpecificMethodAndPrice (kept (Some 1) (ContractMD.Methods hf_contract) ! 1)) = Some a"
      "HFSpecificMethodAndPrice.MD (HFSpecificContractMD.Methods md ! 1) = Some (length hf_heap + 1)"
      "h' ! (length hf_heap + 1) = (hf_heap ! a)\<lparr> Offset := 8 * int 1 \<rparr>"
    by blast
  from a'(1) k have a1: "a = 1" by simp
  from a'(2) len have e1: "HFSpecificMethodAndPrice.MD (HFSpecificContractMD.Methods md ! 1) = Some 4"
    by simp
  from a'(3) a1 len c1 have e2: "h' ! 4 = (method_desc ''m2'' 0)\<lparr> Offset := 8 \<rparr>"
    by simp
  note e = e1 e2
  from res a b c d e show ?thesis by blast
qed

section \<open>Properties of registration and lookup\<close>

lemma shift_insert:
  "index \<le> length xs \<Longrightarrow> (shift_up index (xs @ [z]))[index := x] = take index xs @ x # drop index xs"
proof (cases "index = length xs")
  case True
  then show ?thesis by (simp add: shift_up_def list_update_append)
next
  case False
  assume "index \<le> length xs"
  with False have lt: "index < length xs" by simp
  then have "take (index + 1) (xs @ [z]) = take index xs @ [xs ! index]"
    by (simp add: take_Suc_conv_app_nth)
  moreover have "take (length (xs @ [z]) - (index + 1)) (drop index (xs @ [z])) = drop index xs"
    using lt by simp
  ultimately show ?thesis
    using lt by (simp add: shift_up_def list_update_append)
qed

lemma sorted_insert_at:
  fixes k :: "'a :: linorder"
  assumes srt: "sorted ks" and r: "r \<le> length ks"
      and low: "\<forall>i<r. ks ! i \<le> k"
      and high: "\<forall>i. r \<le> i \<and> i < length ks \<longrightarrow> k \<le> ks ! i"
  shows "sorted (take r ks @ k # drop r ks)"
proof -
  have a: "\<forall>x \<in> set (take r ks). x \<le> k"
  proof
    fix x assume "x \<in> set (take r ks)"
    then obtain i where "i < length (take r ks)" "take r ks ! i = x"
      by (auto simp: in_set_conv_nth)
    with r low show "x \<le> k" by auto
  qed
  have b: "\<forall>y \<in> set (drop r ks). k \<le> y"
  proof
    fix y assume "y \<in> set (drop r ks)"
    then obtain i where i: "i < length (drop r ks)" "drop r ks ! i = y"
      by (auto simp: in_set_conv_nth)
    then have "r + i < length ks" "ks ! (r + i) = y" using r by auto
    with high show "k \<le> y" by auto
  qed
  have c: "\<forall>x \<in> set (take r ks). \<forall>y \<in> set (drop r ks). x \<le> y"
    using a b by (blast intro: order_trans)
  from srt have "sorted (take r ks)" "sorted (drop r ks)"
    by (simp_all add: sorted_wrt_take sorted_wrt_drop)
  with a b c show ?thesis by (simp add: sorted_append)
qed

lemma load_update_Safe:
  "load (h[a := (h ! a)\<lparr> Safe := s \<rparr>]) p
     = (case load h p of Inl e \<Rightarrow> Inl e
        | Inr d \<Rightarrow> Inr (if p = Some a then d\<lparr> Safe := s \<rparr> else d))"
  by (auto simp: load_def nth_list_update split: option.splits)

lemma method_key_update_Safe:
  "method_key (h[a := (h ! a)\<lparr> Safe := s \<rparr>]) m = method_key h m"
  by (simp add: method_key_def load_update_Safe split: sum.splits)

lemma methods_allocated_update:
  "methods_allocated (h[a := x]) ms = methods_allocated h ms"
  by (simp add: methods_allocated_def)

lemma methods_allocated_nth:
  "methods_allocated h ms \<Longrightarrow> i < length ms \<Longrightarrow>
   \<exists>a. HFSpecificMethodAndPrice.MD (ms ! i) = Some a \<and> a < length h"
  by (auto simp: methods_allocated_def list_all_length)

lemma AddMethod_after_key:
  assumes al: "methods_allocated h (map HFSpecificMethodAndPrice ms)"
      and d: "a < length h" and i: "i < length ms"
  shows "AddMethod_after h ms (Some a) i
           = Inr ((manifest_Method.Name (h ! a), length (manifest_Method.Parameters (h ! a)))
                    < method_key h (HFSpecificMethodAndPrice (ms ! i)))"
proof -
  from methods_allocated_nth [OF al, of i] i obtain b where
    b: "HFSpecificMethodAndPrice.MD (HFSpecificMethodAndPrice (ms ! i)) = Some b" "b < length h"
    by auto
  show ?thesis
    using b d by (auto simp: AddMethod_after_def load_def method_key_def)
qed

lemma AddMethod_sorted:
  assumes al: "methods_allocated h (map HFSpecificMethodAndPrice (ContractMD.Methods c))"
      and srt: "methods_sorted h (map HFSpecificMethodAndPrice (ContractMD.Methods c))"
      and a: "a < length h"
  shows "\<exists>h' c'. AddMethod h c md (Some a) = Inr (h', c')
       \<and> length h' = length h
       \<and> methods_allocated h' (map HFSpecificMethodAndPrice (ContractMD.Methods c'))
       \<and> methods_sorted h' (map HFSpecificMethodAndPrice (ContractMD.Methods c'))
       \<and> length (ContractMD.Methods c') = Suc (length (ContractMD.Methods c))
       \<and> ContractMD.Events c' = ContractMD.Events c"
proof -
  let ?ms = "ContractMD.Methods c"
  let ?md1 = "md\<lparr> HFSpecificMethodAndPrice :=
                 (HFSpecificMethodAndPrice md)\<lparr> HFSpecificMethodAndPrice.MD := Some a \<rparr> \<rparr>"
  let ?safe = "HFSpecificMethodAndPrice.RequiredFlags (HFSpecificMethodAndPrice ?md1)
                 AND (callflag_All XOR callflag_ReadOnly) = 0"
  let ?h1 = "h[a := (h ! a)\<lparr> Safe := ?safe \<rparr>]"
  let ?K = "\<lambda>m. method_key h (HFSpecificMethodAndPrice m)"
  let ?k = "(manifest_Method.Name (h ! a), length (manifest_Method.Parameters (h ! a)))"
  let ?g = "\<lambda>i. ?k < ?K (?ms ! i)"
  have al1: "methods_allocated ?h1 (map HFSpecificMethodAndPrice ?ms)"
    using al by (simp add: methods_allocated_update)
  have a1: "a < length ?h1" using a by simp
  have cell: "(manifest_Method.Name (?h1 ! a), length (manifest_Method.Parameters (?h1 ! a))) = ?k"
    using a by simp
  have tot: "\<forall>i<length ?ms. AddMethod_after ?h1 ?ms (Some a) i = Inr (?g i)"
    using AddMethod_after_key [OF al1 a1] cell by (simp add: method_key_update_Safe)
  have keys: "sorted (map ?K ?ms)"
    using srt by (simp add: methods_sorted_def comp_def)
  have mono: "\<forall>x y. x \<le> y \<and> y < length ?ms \<and> ?g x \<longrightarrow> ?g y"
  proof (intro allI impI)
    fix x y assume xy: "x \<le> y \<and> y < length ?ms \<and> ?g x"
    then have "map ?K ?ms ! x \<le> map ?K ?ms ! y"
      using keys by (intro sorted_nth_mono) simp_all
    with xy have "?K (?ms ! x) \<le> ?K (?ms ! y)" by simp
    with xy show "?g y" by (blast intro: less_le_trans)
  qed
  from Search_partition [OF tot mono] obtain r where
    r: "Search (length ?ms) (AddMethod_after ?h1 ?ms (Some a)) = Inr r" "r \<le> length ?ms"
       "\<forall>i<r. \<not> ?g i" "\<forall>i. r \<le> i \<and> i < length ?ms \<longrightarrow> ?g i"
    by blast
  let ?ms' = "take r ?ms @ ?md1 # drop r ?ms"
  let ?c' = "c\<lparr> ContractMD.Methods := ?ms',
               ActiveHFs := (case MethodAndPrice.ActiveFrom ?md1 of
                               None \<Rightarrow> ActiveHFs c
                             | Some hf \<Rightarrow> insert hf (ActiveHFs c)) \<rparr>"
  have res: "AddMethod h c md (Some a) = Inr (?h1, ?c')"
    using a r(1,2) by (simp add: AddMethod_def load_def Let_def shift_insert)
  have kmd: "method_key h ((HFSpecificMethodAndPrice md)\<lparr> HFSpecificMethodAndPrice.MD := Some a \<rparr>) = ?k"
    using a by (simp add: method_key_def load_def)
  have "sorted (take r (map ?K ?ms) @ ?k # drop r (map ?K ?ms))"
  proof (rule sorted_insert_at [OF keys])
    show "r \<le> length (map ?K ?ms)" using r(2) by simp
    show "\<forall>i<r. map ?K ?ms ! i \<le> ?k"
      using r(2,3) by (auto simp: not_less)
    show "\<forall>i. r \<le> i \<and> i < length (map ?K ?ms) \<longrightarrow> ?k \<le> map ?K ?ms ! i"
      using r(4) by (auto intro: less_imp_le)
  qed
  then have srt': "methods_sorted ?h1 (map HFSpecificMethodAndPrice ?ms')"
    by (simp add: methods_sorted_def method_key_update_Safe kmd take_map drop_map comp_def)
  have al': "methods_allocated ?h1 (map HFSpecificMethodAndPrice ?ms')"
  proof -
    have "\<forall>m \<in> set ?ms. HFSpecificMethodAndPrice.MD (HFSpecificMethodAndPrice m) \<noteq> None
            \<and> the (HFSpecificMethodAndPrice.MD (HFSpecificMethodAndPrice m)) < length h"
      using al by (simp add: methods_allocated_def list_all_iff)
    then have "methods_allocated h (map HFSpecificMethodAndPrice ?ms')"
      using a by (auto simp: methods_allocated_def list_all_iff dest: in_set_takeD in_set_dropD)
    then show ?thesis by (simp only: methods_allocated_update)
  qed
  have len: "length ?ms' = Suc (length ?ms)" using r(2) by simp
  from res al' srt' len show ?thesis
    by (intro exI [of _ ?h1] exI [of _ ?c']) simp
qed

lemma AddMethod_Inr_desc:
  "AddMethod h c md desc = Inr r \<Longrightarrow> \<exists>a. desc = Some a \<and> a < length h"
  by (auto simp: AddMethod_def load_def split: option.splits sum.splits if_splits)

lemma AddMethods_sorted:
  "AddMethods h c regs = Inr (h', c') \<Longrightarrow>
   methods_allocated h (map HFSpecificMethodAndPrice (ContractMD.Methods c)) \<Longrightarrow>
   methods_sorted h (map HFSpecificMethodAndPrice (ContractMD.Methods c)) \<Longrightarrow>
   methods_allocated h' (map HFSpecificMethodAndPrice (ContractMD.Methods c'))
   \<and> methods_sorted h' (map HFSpecificMethodAndPrice (ContractMD.Methods c'))
   \<and> length (ContractMD.Methods c') = length (ContractMD.Methods c) + length regs
   \<and> length h' = length h"
proof (induction regs arbitrary: h c)
  case Nil
  then show ?case by simp
next
  case (Cons reg regs)
  obtain md desc where reg: "reg = (md, desc)" by (cases reg)
  from Cons.prems(1) reg obtain h1 c1 where
    one: "AddMethod h c md desc = Inr (h1, c1)" and rest: "AddMethods h1 c1 regs = Inr (h', c')"
    by (auto split: sum.splits)
  from AddMethod_Inr_desc [OF one] obtain a where a: "desc = Some a" "a < length h" by blast
  from AddMethod_sorted [OF Cons.prems(2,3) a(2), of md] one a(1)
  have inv: "methods_allocated h1 (map HFSpecificMethodAndPrice (ContractMD.Methods c1))"
      "methods_sorted h1 (map HFSpecificMethodAndPrice (ContractMD.Methods c1))"
      "length (ContractMD.Methods c1) = Suc (length (ContractMD.Methods c))"
      "length h1 = length h"
    by auto
  from Cons.IH [OF rest inv(1,2)] inv(3,4) show ?case by simp
qed

lemma AddMethods_returns:
  "registrations_allocated h regs \<Longrightarrow>
   methods_allocated h (map HFSpecificMethodAndPrice (ContractMD.Methods c)) \<Longrightarrow>
   methods_sorted h (map HFSpecificMethodAndPrice (ContractMD.Methods c)) \<Longrightarrow>
   \<exists>h' c'. AddMethods h c regs = Inr (h', c')"
proof (induction regs arbitrary: h c)
  case Nil
  then show ?case by simp
next
  case (Cons reg regs)
  obtain md desc where reg: "reg = (md, desc)" by (cases reg)
  from Cons.prems(1) reg obtain a where a: "desc = Some a" "a < length h"
    and ra: "registrations_allocated h regs"
    by (auto simp: registrations_allocated_def)
  from AddMethod_sorted [OF Cons.prems(2,3) a(2), of md] a(1) obtain h1 c1 where
    one: "AddMethod h c md desc = Inr (h1, c1)"
    and inv: "methods_allocated h1 (map HFSpecificMethodAndPrice (ContractMD.Methods c1))"
      "methods_sorted h1 (map HFSpecificMethodAndPrice (ContractMD.Methods c1))"
      "length h1 = length h"
    by auto
  from ra inv(3) have "registrations_allocated h1 regs"
    by (simp add: registrations_allocated_def)
  from Cons.IH [OF this inv(1,2)] obtain h' c' where "AddMethods h1 c1 regs = Inr (h', c')" by blast
  with one reg show ?case by simp
qed

text \<open>
  C3, amended. A registration on a new contract with allocated descriptor pointers
  returns, and after any registration that returns the method table is sorted
  ascending by name and, among methods of equal name, ascending by parameter count;
  it holds one method for each call.
\<close>

theorem registration_sorted:
  "(registrations_allocated h regs \<longrightarrow>
      (\<exists>h' c'. AddMethods h (NewContractMD mkHash name cid cb) regs = Inr (h', c')))
 \<and> (\<forall>h' c'. AddMethods h (NewContractMD mkHash name cid cb) regs = Inr (h', c') \<longrightarrow>
      methods_sorted h' (map HFSpecificMethodAndPrice (ContractMD.Methods c'))
    \<and> methods_allocated h' (map HFSpecificMethodAndPrice (ContractMD.Methods c'))
    \<and> length (ContractMD.Methods c') = length regs)"
proof -
  have e: "methods_allocated h (map HFSpecificMethodAndPrice (ContractMD.Methods (NewContractMD mkHash name cid cb)))"
      "methods_sorted h (map HFSpecificMethodAndPrice (ContractMD.Methods (NewContractMD mkHash name cid cb)))"
      "length (ContractMD.Methods (NewContractMD mkHash name cid cb)) = 0"
    by (simp_all add: NewContractMD_def methods_allocated_def methods_sorted_def)
  show ?thesis
    using AddMethods_returns [OF _ e(1,2)] AddMethods_sorted [OF _ e(1,2)] e(3) by auto
qed

lemma copy_registration:
  "AddMethods copy_heap empty_contract copy_regs = Inr (copy_heap_registered, copy_contract)"
  by (simp add: copy_heap_def copy_regs_def copy_heap_registered_def copy_contract_def
      empty_contract_def NewContractMD_def AddMethod_def AddMethod_after_def load_def Let_def
      Search_def Search_loop.simps shift_up_def method_desc_def method_decl_def
      zero_MethodAndPrice_def callflag_All_def callflag_ReadOnly_def callflag_States_def
      callflag_ReadStates_def callflag_WriteStates_def callflag_AllowCall_def callflag_AllowNotify_def)

lemma copy_keys:
  "map (method_key copy_heap_registered) (map HFSpecificMethodAndPrice (ContractMD.Methods copy_contract))
     = [(''copy'', 1), (''copy'', 2), (''copy'', 3)]"
  by (simp add: copy_heap_registered_def copy_heap_def copy_contract_def method_key_def load_def
      method_decl_def method_desc_def)

text \<open>
  C3 as stated says: descending by parameter count among equal names, so that
  registering \<open>copy\<close> with 2, 3 and 1 parameters yields the order 3, 2, 1. The
  registration yields the order 1, 2, 3, which is not sorted in the stated order.
\<close>

theorem registration_order_counterexample:
  "AddMethods copy_heap empty_contract copy_regs = Inr (copy_heap_registered, copy_contract)
 \<and> map (method_key copy_heap_registered) (map HFSpecificMethodAndPrice (ContractMD.Methods copy_contract))
     = [(''copy'', 1), (''copy'', 2), (''copy'', 3)]
 \<and> \<not> methods_sorted_desc copy_heap_registered (map HFSpecificMethodAndPrice (ContractMD.Methods copy_contract))"
  using copy_registration copy_keys by (simp add: methods_sorted_desc_def)

theorem registration_sorted_witness:
  "registrations_allocated copy_heap copy_regs
 \<and> AddMethods copy_heap empty_contract copy_regs = Inr (copy_heap_registered, copy_contract)
 \<and> methods_sorted copy_heap_registered (map HFSpecificMethodAndPrice (ContractMD.Methods copy_contract))
 \<and> length (ContractMD.Methods copy_contract) = 3"
proof -
  have ra: "registrations_allocated copy_heap copy_regs"
    by (simp add: registrations_allocated_def copy_heap_def copy_regs_def)
  have len: "length copy_regs = 3" by (simp add: copy_regs_def)
  from registration_sorted [of copy_heap copy_regs "\<lambda>_. 0" "''Test''" "- 1" None] copy_registration ra len
  show ?thesis by (simp add: empty_contract_def)
qed

lemma Compare_less: "Compare a b = - 1 \<longleftrightarrow> a < b"
  and Compare_greater: "Compare a b = 1 \<longleftrightarrow> b < a"
  by (auto simp: Compare_def)

lemma method_key_allocated:
  "HFSpecificMethodAndPrice.MD m = Some a \<Longrightarrow> a < length h \<Longrightarrow>
   method_key h m = (manifest_Method.Name (h ! a), length (manifest_Method.Parameters (h ! a)))"
  by (simp add: method_key_def load_def)

lemma GetMethod_reached_key:
  assumes al: "methods_allocated h ms" and i: "i < length ms"
  shows "GetMethod_reached h ms name n i
           = Inr (name < fst (method_key h (ms ! i))
                  \<or> (name = fst (method_key h (ms ! i)) \<and> n \<le> int (snd (method_key h (ms ! i)))))"
proof -
  from methods_allocated_nth [OF al i] obtain a where
    a: "HFSpecificMethodAndPrice.MD (ms ! i) = Some a" "a < length h" by blast
  have ld: "load h (HFSpecificMethodAndPrice.MD (ms ! i)) = Inr (h ! a)"
    using a by (simp add: load_def)
  show ?thesis
    unfolding GetMethod_reached_def ld method_key_allocated [OF a]
    by (auto simp: Let_def Compare_less Compare_greater)
qed

lemma GetMethod_index:
  assumes al: "methods_allocated h (HFSpecificContractMD.Methods c)"
      and srt: "methods_sorted h (HFSpecificContractMD.Methods c)"
  shows "\<exists>r \<le> length (HFSpecificContractMD.Methods c).
           (\<forall>i<r. \<not> (name < fst (method_key h (HFSpecificContractMD.Methods c ! i))
                       \<or> (name = fst (method_key h (HFSpecificContractMD.Methods c ! i))
                          \<and> n \<le> int (snd (method_key h (HFSpecificContractMD.Methods c ! i))))))
         \<and> (\<forall>i. r \<le> i \<and> i < length (HFSpecificContractMD.Methods c) \<longrightarrow>
                 (name < fst (method_key h (HFSpecificContractMD.Methods c ! i))
                       \<or> (name = fst (method_key h (HFSpecificContractMD.Methods c ! i))
                          \<and> n \<le> int (snd (method_key h (HFSpecificContractMD.Methods c ! i))))))
         \<and> GetMethod h c name n
             = Inr (if r < length (HFSpecificContractMD.Methods c)
                       \<and> fst (method_key h (HFSpecificContractMD.Methods c ! r)) = name
                       \<and> (n = - 1 \<or> int (snd (method_key h (HFSpecificContractMD.Methods c ! r))) = n)
                    then Some (HFSpecificContractMD.Methods c ! r) else None)"
proof -
  let ?ms = "HFSpecificContractMD.Methods c"
  let ?K = "\<lambda>i. method_key h (?ms ! i)"
  let ?g = "\<lambda>i. name < fst (?K i) \<or> (name = fst (?K i) \<and> n \<le> int (snd (?K i)))"
  have tot: "\<forall>i<length ?ms. GetMethod_reached h ?ms name n i = Inr (?g i)"
    using GetMethod_reached_key [OF al] by simp
  have keys: "sorted (map (method_key h) ?ms)"
    using srt by (simp add: methods_sorted_def)
  have mono: "\<forall>x y. x \<le> y \<and> y < length ?ms \<and> ?g x \<longrightarrow> ?g y"
  proof (intro allI impI)
    fix x y assume xy: "x \<le> y \<and> y < length ?ms \<and> ?g x"
    then have "map (method_key h) ?ms ! x \<le> map (method_key h) ?ms ! y"
      using keys by (intro sorted_nth_mono) simp_all
    with xy have "?K x \<le> ?K y" by simp
    then have "fst (?K x) < fst (?K y) \<or> (fst (?K x) \<le> fst (?K y) \<and> snd (?K x) \<le> snd (?K y))"
      by (simp add: less_eq_prod_def)
    with xy show "?g y" by auto
  qed
  from Search_partition [OF tot mono] obtain r where
    r: "Search (length ?ms) (GetMethod_reached h ?ms name n) = Inr r" "r \<le> length ?ms"
       "\<forall>i<r. \<not> ?g i" "\<forall>i. r \<le> i \<and> i < length ?ms \<longrightarrow> ?g i"
    by blast
  have res: "GetMethod h c name n
             = Inr (if r < length ?ms \<and> fst (?K r) = name \<and> (n = - 1 \<or> int (snd (?K r)) = n)
                    then Some (?ms ! r) else None)"
  proof (cases "r < length ?ms")
    case False
    then show ?thesis by (simp add: GetMethod_def r(1))
  next
    case True
    from methods_allocated_nth [OF al True] obtain a where
      a: "HFSpecificMethodAndPrice.MD (?ms ! r) = Some a" "a < length h" by blast
    have ld: "load h (HFSpecificMethodAndPrice.MD (?ms ! r)) = Inr (h ! a)"
      using a by (simp add: load_def)
    show ?thesis
      using True by (simp add: GetMethod_def r(1) Let_def ld method_key_allocated [OF a])
  qed
  from r(2,3,4) res show ?thesis by blast
qed

text \<open>
  C4, amended. On a method table that is allocated and sorted (as registration leaves
  it), \<open>GetMethod\<close> returns without a panic; a method that it returns is in the table,
  has the name asked for and, unless the parameter count asked for is -1, that
  parameter count; when the table has such a method, one is returned. With the
  parameter count -1 the result is the first method of that name in table order, and
  its parameter count is the smallest among the methods of that name.
\<close>

theorem GetMethod_sorted_table:
  assumes al: "methods_allocated h (HFSpecificContractMD.Methods c)"
      and srt: "methods_sorted h (HFSpecificContractMD.Methods c)"
  shows "(\<exists>res. GetMethod h c name n = Inr res)
     \<and> (\<forall>m. GetMethod h c name n = Inr (Some m) \<longrightarrow>
           m \<in> set (HFSpecificContractMD.Methods c) \<and> fst (method_key h m) = name
         \<and> (n = - 1 \<or> int (snd (method_key h m)) = n))
     \<and> ((\<exists>m \<in> set (HFSpecificContractMD.Methods c).
            fst (method_key h m) = name \<and> (n = - 1 \<or> int (snd (method_key h m)) = n)) \<longrightarrow>
          (\<exists>m. GetMethod h c name n = Inr (Some m)))
     \<and> GetMethod h c name (- 1)
         = Inr (find (\<lambda>m. fst (method_key h m) = name) (HFSpecificContractMD.Methods c))
     \<and> (\<forall>m m'. GetMethod h c name (- 1) = Inr (Some m) \<and> m' \<in> set (HFSpecificContractMD.Methods c)
           \<and> fst (method_key h m') = name \<longrightarrow>
           snd (method_key h m) \<le> snd (method_key h m'))"
proof -
  let ?ms = "HFSpecificContractMD.Methods c"
  let ?K = "\<lambda>i. method_key h (?ms ! i)"
  have keys: "sorted (map (method_key h) ?ms)"
    using srt by (simp add: methods_sorted_def)
  have le: "fst (?K x) < fst (?K y) \<or> (fst (?K x) \<le> fst (?K y) \<and> snd (?K x) \<le> snd (?K y))"
    if "x \<le> y" "y < length ?ms" for x y
  proof -
    from that have "map (method_key h) ?ms ! x \<le> map (method_key h) ?ms ! y"
      using keys by (intro sorted_nth_mono) simp_all
    with that have "?K x \<le> ?K y" by simp
    then show ?thesis by (simp add: less_eq_prod_def)
  qed
  \<comment> \<open>the search with the given parameter count\<close>
  from GetMethod_index [OF al srt, of name n] obtain r where
    r: "r \<le> length ?ms"
       "\<forall>i<r. \<not> (name < fst (?K i) \<or> (name = fst (?K i) \<and> n \<le> int (snd (?K i))))"
       "\<forall>i. r \<le> i \<and> i < length ?ms \<longrightarrow> (name < fst (?K i) \<or> (name = fst (?K i) \<and> n \<le> int (snd (?K i))))"
       "GetMethod h c name n
             = Inr (if r < length ?ms \<and> fst (?K r) = name \<and> (n = - 1 \<or> int (snd (?K r)) = n)
                    then Some (?ms ! r) else None)"
    by blast
  have returns: "\<exists>res. GetMethod h c name n = Inr res"
    using r(4) by blast
  have sound: "\<forall>m. GetMethod h c name n = Inr (Some m) \<longrightarrow>
           m \<in> set ?ms \<and> fst (method_key h m) = name \<and> (n = - 1 \<or> int (snd (method_key h m)) = n)"
    unfolding r(4) by (auto split: if_splits)
  have complete: "\<exists>m. GetMethod h c name n = Inr (Some m)"
    if ex: "\<exists>m \<in> set ?ms. fst (method_key h m) = name \<and> (n = - 1 \<or> int (snd (method_key h m)) = n)"
  proof -
    from ex obtain k where k: "k < length ?ms" "fst (?K k) = name" "n = - 1 \<or> int (snd (?K k)) = n"
      by (auto simp: in_set_conv_nth)
    have gk: "name = fst (?K k) \<and> n \<le> int (snd (?K k))" using k by auto
    have rk: "r \<le> k"
    proof (rule ccontr)
      assume "\<not> r \<le> k"
      then have "k < r" by simp
      with r(2) gk show False by blast
    qed
    with k have rl: "r < length ?ms" by simp
    from le [OF rk k(1)] k(2) have nr: "fst (?K r) \<le> name" by auto
    from r(3) rl have "name < fst (?K r) \<or> (name = fst (?K r) \<and> n \<le> int (snd (?K r)))" by blast
    with nr have eq: "name = fst (?K r)" and nle: "n \<le> int (snd (?K r))" by auto
    from le [OF rk k(1)] eq k(2) have "snd (?K r) \<le> snd (?K k)" by auto
    with nle k(3) have "n = - 1 \<or> int (snd (?K r)) = n" by auto
    with rl eq r(4) show ?thesis by simp
  qed
  \<comment> \<open>the search that accepts any parameter count\<close>
  from GetMethod_index [OF al srt, of name "- 1"] obtain q where
    q: "q \<le> length ?ms"
       "\<forall>i<q. \<not> (name < fst (?K i) \<or> (name = fst (?K i) \<and> - 1 \<le> int (snd (?K i))))"
       "\<forall>i. q \<le> i \<and> i < length ?ms \<longrightarrow> (name < fst (?K i) \<or> (name = fst (?K i) \<and> - 1 \<le> int (snd (?K i))))"
       "GetMethod h c name (- 1)
             = Inr (if q < length ?ms \<and> fst (?K q) = name \<and> (- 1 = (- 1 :: int) \<or> int (snd (?K q)) = - 1)
                    then Some (?ms ! q) else None)"
    by blast
  have before: "fst (?K i) \<noteq> name" if "i < q" for i
    using q(2) that by auto
  have first: "GetMethod h c name (- 1) = Inr (find (\<lambda>m. fst (method_key h m) = name) ?ms)"
  proof (cases "q < length ?ms \<and> fst (?K q) = name")
    case True
    then have "find (\<lambda>m. fst (method_key h m) = name) ?ms = Some (?ms ! q)"
      using before by (auto simp: find_Some_iff)
    with True q(4) show ?thesis by simp
  next
    case False
    have "fst (method_key h x) \<noteq> name" if x: "x \<in> set ?ms" for x
    proof -
      from x obtain i where i: "i < length ?ms" "?ms ! i = x" by (auto simp: in_set_conv_nth)
      show ?thesis
      proof (cases "i < q")
        case True
        with before i show ?thesis by auto
      next
        case ge: False
        then have qi: "q \<le> i" by simp
        with i have ql: "q < length ?ms" by simp
        with False have ne: "fst (?K q) \<noteq> name" by simp
        from q(3) ql have "name < fst (?K q) \<or> name = fst (?K q)" by auto
        with ne have "name < fst (?K q)" by auto
        moreover from le [OF qi i(1)] have "fst (?K q) \<le> fst (?K i)" by auto
        ultimately have "name < fst (?K i)" by (rule less_le_trans)
        with i show ?thesis by auto
      qed
    qed
    then have "find (\<lambda>m. fst (method_key h m) = name) ?ms = None"
      by (auto simp: find_None_iff)
    with False q(4) show ?thesis by auto
  qed
  have smallest: "\<forall>m m'. GetMethod h c name (- 1) = Inr (Some m) \<and> m' \<in> set ?ms
           \<and> fst (method_key h m') = name \<longrightarrow> snd (method_key h m) \<le> snd (method_key h m')"
  proof (intro allI impI)
    fix m m'
    assume a: "GetMethod h c name (- 1) = Inr (Some m) \<and> m' \<in> set ?ms \<and> fst (method_key h m') = name"
    with q(4) have m: "q < length ?ms" "fst (?K q) = name" "m = ?ms ! q"
      by (auto split: if_splits)
    from a obtain i where i: "i < length ?ms" "?ms ! i = m'" by (auto simp: in_set_conv_nth)
    have "q \<le> i"
    proof (rule ccontr)
      assume "\<not> q \<le> i"
      then have "i < q" by simp
      from before [OF this] i a show False by simp
    qed
    from le [OF this i(1)] m(2) i(2) a have "snd (?K q) \<le> snd (?K i)" by auto
    with m(3) i(2) show "snd (method_key h m) \<le> snd (method_key h m')" by simp
  qed
  from returns sound complete first smallest show ?thesis by blast
qed

lemma allocated_valid:
  "methods_allocated h (map HFSpecificMethodAndPrice ms) \<Longrightarrow>
   \<forall>m \<in> set ms. valid_pointer h (HFSpecificMethodAndPrice.MD (HFSpecificMethodAndPrice m))"
  by (auto simp: methods_allocated_def list_all_iff valid_pointer_def)

text \<open>
  A descriptor built from an allocated, sorted contract has an allocated, sorted method
  table: its keys are those of the kept declarations, in their order.
\<close>

lemma materialise_sorted:
  assumes res: "buildHFSpecificMD toID h c hf = Inr (h', c', md)"
      and al: "methods_allocated h (map HFSpecificMethodAndPrice (ContractMD.Methods c))"
      and srt: "methods_sorted h (map HFSpecificMethodAndPrice (ContractMD.Methods c))"
  shows "map (method_key h') (HFSpecificContractMD.Methods md)
           = map (\<lambda>m. method_key h (HFSpecificMethodAndPrice m)) (kept hf (ContractMD.Methods c))"
    and "methods_allocated h' (HFSpecificContractMD.Methods md)"
    and "methods_sorted h' (HFSpecificContractMD.Methods md)"
proof -
  let ?act = "kept hf (ContractMD.Methods c)"
  let ?out = "HFSpecificContractMD.Methods md"
  note val = allocated_valid [OF al]
  note cf = buildHFSpecificMD_closed [OF res val]
  have n: "length ?out = length ?act" by (simp add: cf(2) length_outputs)
  have lh: "length h' = length h + length ?act" by (simp add: cf(1) length_clones)
  have sub: "set ?act \<subseteq> set (ContractMD.Methods c)" by (auto simp: kept_def)
  have each: "HFSpecificMethodAndPrice.MD (?out ! j) = Some (length h + j)
            \<and> method_key h' (?out ! j) = method_key h (HFSpecificMethodAndPrice (?act ! j))"
    if j: "j < length ?act" for j
  proof -
    from j sub have "?act ! j \<in> set (ContractMD.Methods c)" by (auto dest: nth_mem)
    with al obtain a where a: "HFSpecificMethodAndPrice.MD (HFSpecificMethodAndPrice (?act ! j)) = Some a"
        "a < length h"
      by (auto simp: methods_allocated_def list_all_iff)
    have p: "HFSpecificMethodAndPrice.MD (?out ! j) = Some (length h + j)"
      using nth_outputs [OF j, of "length h" 0] by (simp add: cf(2))
    have cell: "h' ! (length h + j) = (h ! a)\<lparr> Offset := 8 * int j \<rparr>"
      using nth_clones [OF j, of h 0] a by (simp add: cf(1))
    have "length h + j < length h'" using j lh by simp
    from method_key_allocated [OF p this] cell method_key_allocated [OF a] p
    show ?thesis by simp
  qed
  show keys: "map (method_key h') ?out = map (\<lambda>m. method_key h (HFSpecificMethodAndPrice m)) ?act"
    using n each by (intro nth_equalityI) simp_all
  show "methods_allocated h' ?out"
    using n each lh by (auto simp: methods_allocated_def list_all_length)
  have "sorted (map (\<lambda>m. method_key h (HFSpecificMethodAndPrice m)) (ContractMD.Methods c))"
    using srt by (simp add: methods_sorted_def comp_def)
  then have "sorted (map (\<lambda>m. method_key h (HFSpecificMethodAndPrice m)) ?act)"
    unfolding kept_def by (rule sorted_filter)
  then show "methods_sorted h' ?out"
    by (simp add: methods_sorted_def keys)
qed

lemma copy_contract_allocated:
  "methods_allocated copy_heap_registered (map HFSpecificMethodAndPrice (ContractMD.Methods copy_contract))"
  by (simp add: methods_allocated_def copy_heap_registered_def copy_heap_def copy_contract_def method_decl_def)

lemma copy_contract_sorted:
  "methods_sorted copy_heap_registered (map HFSpecificMethodAndPrice (ContractMD.Methods copy_contract))"
  unfolding methods_sorted_def copy_keys by simp

lemma kept_copy_contract:
  "kept None (ContractMD.Methods copy_contract) = ContractMD.Methods copy_contract"
  by (simp add: kept_def copy_contract_def method_decl_def included_simps)

lemma copy_contract_returns:
  "\<exists>h' c' md. buildHFSpecificMD toID copy_heap_registered copy_contract None = Inr (h', c', md)"
proof (rule buildHFSpecificMD_returns)
  show "\<forall>m\<in>set (kept None (ContractMD.Methods copy_contract)).
       \<exists>a. HFSpecificMethodAndPrice.MD (HFSpecificMethodAndPrice m) = Some a \<and> a < length copy_heap_registered"
    unfolding kept_copy_contract
    by (simp add: copy_contract_def copy_heap_registered_def copy_heap_def method_decl_def)
  show "\<forall>e\<in>set (kept_events None (ContractMD.Events copy_contract)).
       HFSpecificEvent.MD (HFSpecificEvent e) \<noteq> None"
    by (simp add: kept_events_def copy_contract_def empty_contract_def NewContractMD_def)
qed

lemma copy_table:
  assumes res: "buildHFSpecificMD toID copy_heap_registered copy_contract None = Inr (h', c', md)"
  shows "map (method_key h') (HFSpecificContractMD.Methods md) = [(''copy'', 1), (''copy'', 2), (''copy'', 3)]"
    and "methods_allocated h' (HFSpecificContractMD.Methods md)"
    and "methods_sorted h' (HFSpecificContractMD.Methods md)"
proof -
  have k: "map (\<lambda>m. method_key copy_heap_registered (HFSpecificMethodAndPrice m)) (ContractMD.Methods copy_contract)
             = [(''copy'', 1), (''copy'', 2), (''copy'', 3)]"
    using copy_keys by (simp add: comp_def)
  note ms = materialise_sorted [OF res copy_contract_allocated copy_contract_sorted]
  from ms(1) show "map (method_key h') (HFSpecificContractMD.Methods md) = [(''copy'', 1), (''copy'', 2), (''copy'', 3)]"
    unfolding kept_copy_contract k .
  from ms(2,3) show "methods_allocated h' (HFSpecificContractMD.Methods md)"
    and "methods_sorted h' (HFSpecificContractMD.Methods md)" .
qed

lemma copy_table_explicit:
  assumes res: "buildHFSpecificMD toID copy_heap_registered copy_contract None = Inr (h', c', md)"
  shows "h' = copy_heap_registered
               @ [(method_desc ''copy'' 1)\<lparr> Safe := True, Offset := 0 \<rparr>,
                  (method_desc ''copy'' 2)\<lparr> Safe := True, Offset := 8 \<rparr>,
                  (method_desc ''copy'' 3)\<lparr> Safe := True, Offset := 16 \<rparr>]"
    and "HFSpecificContractMD.Methods md
          = [(HFSpecificMethodAndPrice (method_decl 3 (Some 3) None))\<lparr> SyscallOffset := 2 \<rparr>,
             (HFSpecificMethodAndPrice (method_decl 1 (Some 4) None))\<lparr> SyscallOffset := 10 \<rparr>,
             (HFSpecificMethodAndPrice (method_decl 2 (Some 5) None))\<lparr> SyscallOffset := 18 \<rparr>]"
  unfolding buildHFSpecificMD_closed [OF res allocated_valid [OF copy_contract_allocated]] kept_copy_contract
  by (simp_all add: copy_contract_def copy_heap_registered_def copy_heap_def method_decl_def method_desc_def)

lemma copy_lookup_any:
  assumes res: "buildHFSpecificMD toID copy_heap_registered copy_contract None = Inr (h', c', md)"
  shows "GetMethod h' md ''copy'' (- 1)
           = Inr (Some ((HFSpecificMethodAndPrice (method_decl 3 (Some 3) None))\<lparr> SyscallOffset := 2 \<rparr>))"
  unfolding GetMethod_def copy_table_explicit [OF res]
  by (simp add: Search_def Search_loop.simps GetMethod_reached_def load_def Compare_def Let_def
      copy_heap_registered_def copy_heap_def method_decl_def method_desc_def)

text \<open>
  C4 as stated says that the parameter count -1 returns the largest-arity overload. After
  the registration of the overload scenario, the descriptor built without a hardfork
  has \<open>copy\<close> with 3 parameters in its table, and \<open>GetMethod\<close> with -1 returns \<open>copy\<close> with 1
  parameter.
\<close>

theorem GetMethod_any_arity_counterexample:
  "AddMethods copy_heap empty_contract copy_regs = Inr (copy_heap_registered, copy_contract)
 \<and> (\<exists>h' c' md m m'.
        buildHFSpecificMD example_toID copy_heap_registered copy_contract None = Inr (h', c', md)
      \<and> GetMethod h' md ''copy'' (- 1) = Inr (Some m)
      \<and> method_key h' m = (''copy'', 1)
      \<and> m' \<in> set (HFSpecificContractMD.Methods md)
      \<and> method_key h' m' = (''copy'', 3))"
proof -
  from copy_contract_returns obtain h' c' md where
    res: "buildHFSpecificMD example_toID copy_heap_registered copy_contract None = Inr (h', c', md)"
    by blast
  let ?m = "(HFSpecificMethodAndPrice (method_decl 3 (Some 3) None))\<lparr> SyscallOffset := 2 \<rparr>"
  let ?m' = "(HFSpecificMethodAndPrice (method_decl 2 (Some 5) None))\<lparr> SyscallOffset := 18 \<rparr>"
  have a: "GetMethod h' md ''copy'' (- 1) = Inr (Some ?m)" by (rule copy_lookup_any [OF res])
  have b: "method_key h' ?m = (''copy'', 1)"
    unfolding copy_table_explicit(1) [OF res]
    by (simp add: method_key_def load_def copy_heap_registered_def copy_heap_def method_decl_def method_desc_def)
  have c: "?m' \<in> set (HFSpecificContractMD.Methods md)"
    unfolding copy_table_explicit(2) [OF res] by simp
  have d: "method_key h' ?m' = (''copy'', 3)"
    unfolding copy_table_explicit(1) [OF res]
    by (simp add: method_key_def load_def copy_heap_registered_def copy_heap_def method_decl_def method_desc_def)
  from res a b c d copy_registration show ?thesis by blast
qed

text \<open>
  Lookups in the table of the overload scenario: by arity 2, by any arity, by an
  arity that no overload has, and by a name that is not in the table.
\<close>

theorem GetMethod_sorted_table_witness:
  "\<exists>h' c' md.
      buildHFSpecificMD example_toID copy_heap_registered copy_contract None = Inr (h', c', md)
    \<and> methods_allocated h' (HFSpecificContractMD.Methods md)
    \<and> methods_sorted h' (HFSpecificContractMD.Methods md)
    \<and> (\<exists>m. GetMethod h' md ''copy'' 2 = Inr (Some m) \<and> method_key h' m = (''copy'', 2))
    \<and> (\<exists>m. GetMethod h' md ''copy'' (- 1) = Inr (Some m) \<and> method_key h' m = (''copy'', 1))
    \<and> GetMethod h' md ''copy'' 4 = Inr None
    \<and> GetMethod h' md ''move'' (- 1) = Inr None"
proof -
  from copy_contract_returns obtain h' c' md where
    res: "buildHFSpecificMD example_toID copy_heap_registered copy_contract None = Inr (h', c', md)"
    by blast
  note tab = copy_table [OF res]
  let ?ms = "HFSpecificContractMD.Methods md"
  have keyset: "method_key h' ` set ?ms = {(''copy'', 1), (''copy'', 2), (''copy'', 3)}"
    using arg_cong [OF tab(1), of set] by (simp add: insert_commute)
  note th2 = GetMethod_sorted_table [OF tab(2,3), of "''copy''" 2]
  note th4 = GetMethod_sorted_table [OF tab(2,3), of "''copy''" 4]
  note thv = GetMethod_sorted_table [OF tab(2,3), of "''move''" "- 1"]
  have two: "\<exists>m. GetMethod h' md ''copy'' 2 = Inr (Some m) \<and> method_key h' m = (''copy'', 2)"
  proof -
    have "(''copy'', 2) \<in> method_key h' ` set ?ms" unfolding keyset by simp
    then obtain x where x: "x \<in> set ?ms" "method_key h' x = (''copy'', 2)" by auto
    then have "\<exists>m \<in> set ?ms. fst (method_key h' m) = ''copy'' \<and> (2 = (- 1 :: int) \<or> int (snd (method_key h' m)) = 2)"
      by (intro bexI [of _ x]) simp_all
    with th2 obtain m where m: "GetMethod h' md ''copy'' 2 = Inr (Some m)" by blast
    with th2 have "fst (method_key h' m) = ''copy''" "int (snd (method_key h' m)) = 2" by auto
    then have "method_key h' m = (''copy'', 2)" by (cases "method_key h' m") simp
    with m show ?thesis by blast
  qed
  have any: "\<exists>m. GetMethod h' md ''copy'' (- 1) = Inr (Some m) \<and> method_key h' m = (''copy'', 1)"
  proof -
    from th2 have "GetMethod h' md ''copy'' (- 1) = Inr (find (\<lambda>m. fst (method_key h' m) = ''copy'') ?ms)"
      by blast
    moreover have "\<exists>m. find (\<lambda>m. fst (method_key h' m) = ''copy'') ?ms = Some m \<and> method_key h' m = (''copy'', 1)"
    proof -
      from tab(1) obtain a rest where ar: "?ms = a # rest" "method_key h' a = (''copy'', 1)"
        by (cases ?ms) auto
      then show ?thesis by simp
    qed
    ultimately show ?thesis by auto
  qed
  have four: "GetMethod h' md ''copy'' 4 = Inr None"
  proof -
    from th4 obtain res4 where r4: "GetMethod h' md ''copy'' 4 = Inr res4" by blast
    show ?thesis
    proof (cases res4)
      case None
      with r4 show ?thesis by simp
    next
      case (Some m)
      with r4 th4 have mem: "m \<in> set ?ms" and ar: "int (snd (method_key h' m)) = 4" by auto
      from mem have "method_key h' m \<in> method_key h' ` set ?ms" by (rule imageI)
      then have "method_key h' m \<in> {(''copy'', 1), (''copy'', 2), (''copy'', 3)}"
        unfolding keyset .
      then have "snd (method_key h' m) = 1 \<or> snd (method_key h' m) = 2 \<or> snd (method_key h' m) = 3"
        by auto
      with ar show ?thesis by auto
    qed
  qed
  have move: "GetMethod h' md ''move'' (- 1) = Inr None"
  proof -
    from thv have "GetMethod h' md ''move'' (- 1) = Inr (find (\<lambda>m. fst (method_key h' m) = ''move'') ?ms)"
      by blast
    moreover have "find (\<lambda>m. fst (method_key h' m) = ''move'') ?ms = None"
    proof -
      have "fst (method_key h' x) \<noteq> ''move''" if "x \<in> set ?ms" for x
      proof -
        from that have "method_key h' x \<in> method_key h' ` set ?ms" by (rule imageI)
        then have "method_key h' x \<in> {(''copy'', 1), (''copy'', 2), (''copy'', 3)}"
          unfolding keyset .
        then have "fst (method_key h' x) = ''copy''" by auto
        then show ?thesis by simp
      qed
      then show ?thesis by (auto simp: find_None_iff)
    qed
    ultimately show ?thesis by simp
  qed
  from res tab(2,3) two any four move show ?thesis by blast
qed

end
